theory Spec2Isabelle
  imports Main "HOL-Library.Word"
begin

section \<open>MailPilot API: identity registry and quota ledger of server.js\<close>

text \<open>
  The development embeds the authentication and rate-limiting core of \<^verbatim>\<open>server.js\<close>:
  \<^verbatim>\<open>registerUser\<close>, \<^verbatim>\<open>validateApiKey\<close>, \<^verbatim>\<open>todayStr\<close>, \<^verbatim>\<open>endOfDayUnix\<close>,
  \<^verbatim>\<open>checkAndIncrement\<close>, \<^verbatim>\<open>getUsage\<close> and the middleware that calls them.
  The module-level variables \<^verbatim>\<open>users\<close> and \<^verbatim>\<open>usage\<close> become fields of a state record
  that every function takes and returns. What a call reads from its environment (the
  clock, the random generator, whether the file write succeeds) is an argument.
  Counters are JavaScript numbers that only ever hold integers; they are modelled as
  \<open>int\<close>.
\<close>

subsection \<open>Numbers and strings\<close>

text \<open>\<^verbatim>\<open>String(n)\<close> for an integer \<open>n\<close>: the decimal digits, with a minus sign below zero.\<close>

definition digit_char :: "nat \<Rightarrow> char" where
  "digit_char d = ''0123456789'' ! (d mod 10)"

fun decimal :: "nat \<Rightarrow> string" where
  "decimal n = (if n < 10 then [digit_char n] else decimal (n div 10) @ [digit_char n])"

declare decimal.simps [simp del]

definition String_int :: "int \<Rightarrow> string" where
  "String_int n = (if n < 0 then CHR ''-'' # decimal (nat (- n)) else decimal (nat n))"

text \<open>\<^verbatim>\<open>String(x)\<close> for a number that may be \<^verbatim>\<open>NaN\<close> (\<open>None\<close>).\<close>

definition String_num :: "int option \<Rightarrow> string" where
  "String_num x = (case x of None \<Rightarrow> ''NaN'' | Some n \<Rightarrow> String_int n)"

text \<open>\<^verbatim>\<open>String(n).padStart(w, '0')\<close>, as the ISO date format pads its fields.\<close>

definition pad0 :: "nat \<Rightarrow> nat \<Rightarrow> string" where
  "pad0 w n = replicate (w - length (decimal n)) CHR ''0'' @ decimal n"

subsection \<open>The Date built-ins (ECMA-262, section 21.4.1)\<close>

text \<open>
  \<^verbatim>\<open>Date\<close> belongs to the JavaScript runtime. Its operations are defined here as
  ECMA-262 specifies them, under the names of the specification. A time value is an
  integer number of milliseconds since 1970-01-01T00:00:00Z; \<open>div\<close> and \<open>mod\<close> on
  \<open>int\<close> are the specification's \<open>floor\<close> and \<open>modulo\<close>.
\<close>

definition msPerDay :: int where
  "msPerDay = 86400000"

definition Day :: "int \<Rightarrow> int" where
  "Day t = t div msPerDay"

definition TimeWithinDay :: "int \<Rightarrow> int" where
  "TimeWithinDay t = t mod msPerDay"

definition DaysInYear :: "int \<Rightarrow> int" where
  "DaysInYear y =
     (if y mod 4 \<noteq> 0 then 365
      else if y mod 100 \<noteq> 0 then 366
      else if y mod 400 \<noteq> 0 then 365
      else 366)"

definition DayFromYear :: "int \<Rightarrow> int" where
  "DayFromYear y =
     365 * (y - 1970) + (y - 1969) div 4 - (y - 1901) div 100 + (y - 1601) div 400"

definition TimeFromYear :: "int \<Rightarrow> int" where
  "TimeFromYear y = msPerDay * DayFromYear y"

text \<open>
  \<^verbatim>\<open>YearFromTime(t)\<close> is specified as the largest \<open>y\<close> with \<open>TimeFromYear y \<le> t\<close>.
  It is computed from the mean year length of the 400-year cycle (146097 days) and
  corrected by at most one year; \<open>YearFromTime_bounds\<close> and \<open>YearFromTime_largest\<close>
  below prove that this is the specified year.
\<close>

definition YearFromTime :: "int \<Rightarrow> int" where
  "YearFromTime t =
     (let y0 = 1970 + (400 * Day t) div 146097
      in if DayFromYear (y0 + 1) \<le> Day t then y0 + 1
         else if Day t < DayFromYear y0 then y0 - 1
         else y0)"

definition InLeapYear :: "int \<Rightarrow> int" where
  "InLeapYear t = (if DaysInYear (YearFromTime t) = 366 then 1 else 0)"

definition DayWithinYear :: "int \<Rightarrow> int" where
  "DayWithinYear t = Day t - DayFromYear (YearFromTime t)"

definition MonthFromTime :: "int \<Rightarrow> int" where
  "MonthFromTime t =
     (let leap = InLeapYear t; d = DayWithinYear t
      in if d < 31 then 0
         else if d < 59 + leap then 1
         else if d < 90 + leap then 2
         else if d < 120 + leap then 3
         else if d < 151 + leap then 4
         else if d < 181 + leap then 5
         else if d < 212 + leap then 6
         else if d < 243 + leap then 7
         else if d < 273 + leap then 8
         else if d < 304 + leap then 9
         else if d < 334 + leap then 10
         else 11)"

definition DateFromTime :: "int \<Rightarrow> int" where
  "DateFromTime t =
     (let leap = InLeapYear t; d = DayWithinYear t; m = MonthFromTime t
      in if m = 0 then d + 1
         else if m = 1 then d - 30
         else if m = 2 then d - 58 - leap
         else if m = 3 then d - 89 - leap
         else if m = 4 then d - 119 - leap
         else if m = 5 then d - 150 - leap
         else if m = 6 then d - 180 - leap
         else if m = 7 then d - 211 - leap
         else if m = 8 then d - 242 - leap
         else if m = 9 then d - 272 - leap
         else if m = 10 then d - 303 - leap
         else d - 333 - leap)"

text \<open>The day within its year on which month \<open>mn\<close> (0 to 11) begins.\<close>

definition MonthStart :: "int \<Rightarrow> int \<Rightarrow> int" where
  "MonthStart leap mn =
     (if mn = 0 then 0
      else if mn = 1 then 31
      else if mn = 2 then 59 + leap
      else if mn = 3 then 90 + leap
      else if mn = 4 then 120 + leap
      else if mn = 5 then 151 + leap
      else if mn = 6 then 181 + leap
      else if mn = 7 then 212 + leap
      else if mn = 8 then 243 + leap
      else if mn = 9 then 273 + leap
      else if mn = 10 then 304 + leap
      else 334 + leap)"

text \<open>
  \<^verbatim>\<open>MakeDay(year, month, date)\<close>: with \<open>ym = year + floor(month / 12)\<close> and
  \<open>mn = month modulo 12\<close>, the specification takes the time \<open>t\<close> that is the first of
  month \<open>mn\<close> in year \<open>ym\<close> and returns \<open>Day(t) + date - 1\<close>. That day is computed here
  directly; \<open>MakeDay_first_of_month\<close> below proves that it has the three properties the
  specification asks of \<open>t\<close>. A date beyond the end of the month carries into the next.
\<close>

definition MakeDay :: "int \<Rightarrow> int \<Rightarrow> int \<Rightarrow> int" where
  "MakeDay year month date =
     (let ym = year + month div 12;
          mn = month mod 12;
          leap = (if DaysInYear ym = 366 then 1 else 0)
      in DayFromYear ym + MonthStart leap mn + date - 1)"

definition MakeTime :: "int \<Rightarrow> int \<Rightarrow> int \<Rightarrow> int \<Rightarrow> int" where
  "MakeTime hour minute sec ms = hour * 3600000 + minute * 60000 + sec * 1000 + ms"

definition MakeDate :: "int \<Rightarrow> int \<Rightarrow> int" where
  "MakeDate day time = day * msPerDay + time"

text \<open>A year from 0 to 99 given to \<^verbatim>\<open>Date.UTC\<close> means 1900 to 1999.\<close>

definition MakeFullYear :: "int \<Rightarrow> int" where
  "MakeFullYear y = (if 0 \<le> y \<and> y \<le> 99 then 1900 + y else y)"

text \<open>\<^verbatim>\<open>TimeClip\<close>: a time beyond 100,000,000 days from the epoch is \<^verbatim>\<open>NaN\<close> (\<open>None\<close>).\<close>

definition TimeClip :: "int \<Rightarrow> int option" where
  "TimeClip t = (if \<bar>t\<bar> > 8640000000000000 then None else Some t)"

definition Date_UTC :: "int \<Rightarrow> int \<Rightarrow> int \<Rightarrow> int option" where
  "Date_UTC year month date =
     TimeClip (MakeDate (MakeDay (MakeFullYear year) month date) (MakeTime 0 0 0 0))"

text \<open>
  \<^verbatim>\<open>toISOString()\<close>: \<^verbatim>\<open>YYYY-MM-DDTHH:mm:ss.sssZ\<close>, the year with a sign and six digits
  when it is outside 0 to 9999.
\<close>

definition iso_year :: "int \<Rightarrow> string" where
  "iso_year y =
     (if 0 \<le> y \<and> y \<le> 9999 then pad0 4 (nat y)
      else (if y < 0 then ''-'' else ''+'') @ pad0 6 (nat \<bar>y\<bar>))"

definition toISOString :: "int \<Rightarrow> string" where
  "toISOString t =
     (let w = TimeWithinDay t
      in iso_year (YearFromTime t) @ ''-'' @ pad0 2 (nat (MonthFromTime t + 1)) @ ''-''
         @ pad0 2 (nat (DateFromTime t)) @ ''T''
         @ pad0 2 (nat (w div 3600000)) @ '':''
         @ pad0 2 (nat (w div 60000 mod 60)) @ '':''
         @ pad0 2 (nat (w div 1000 mod 60)) @ ''.''
         @ pad0 3 (nat (w mod 1000)) @ ''Z'')"

subsection \<open>Rate limiting: the clock functions\<close>

text \<open>
  \<^verbatim>\<open>function todayStr() { return new Date().toISOString().slice(0, 10); }\<close>
  The argument is the time that \<^verbatim>\<open>new Date()\<close> reads.
\<close>

definition todayStr :: "int \<Rightarrow> string" where
  "todayStr now = take 10 (toISOString now)"

text \<open>
  \<^verbatim>\<open>
  function endOfDayUnix() {
    const now = new Date();
    const eod = new Date(Date.UTC(now.getUTCFullYear(), now.getUTCMonth(), now.getUTCDate() + 1));
    return Math.floor(eod.getTime() / 1000);
  }
  \<close>
\<close>

definition endOfDayUnix :: "int \<Rightarrow> int option" where
  "endOfDayUnix now =
     (case Date_UTC (YearFromTime now) (MonthFromTime now) (DateFromTime now + 1) of
        None \<Rightarrow> None
      | Some eod \<Rightarrow> Some (eod div 1000))"

subsection \<open>Configuration and data\<close>

text \<open>
  \<^verbatim>\<open>const LIMITS = { free: 10, pro: Infinity };\<close>
  A plan is one of the two keys of the table.
\<close>

datatype plan = Free | Pro

datatype limit = Finite int | Infinity

definition LIMITS :: "plan \<Rightarrow> limit" where
  "LIMITS p = (case p of Free \<Rightarrow> Finite 10 | Pro \<Rightarrow> Infinity)"

text \<open>A user record, as \<^verbatim>\<open>registerUser\<close> builds it.\<close>

record user =
  userId :: string
  email :: string
  plan :: plan
  createdAt :: string

text \<open>
  \<^verbatim>\<open>users: { byKey: { apiKey: UserRecord }, byEmail: { email: apiKey } }\<close> and
  \<^verbatim>\<open>usage: { "userId:YYYY-MM-DD": count }\<close>. Each map holds the own properties of a plain
  JavaScript object.
\<close>

record users_db =
  byKey :: "string \<Rightarrow> user option"
  byEmail :: "string \<Rightarrow> string option"

text \<open>
  The state: the two module variables, and what the two files hold (\<open>None\<close> when a
  file is missing or does not parse, so that \<^verbatim>\<open>loadJSON\<close> falls back).
\<close>

record server_state =
  users :: users_db
  usage :: "string \<Rightarrow> int option"
  users_file :: "users_db option"
  usage_file :: "(string \<Rightarrow> int option) option"

subsection \<open>Property access on plain objects\<close>

text \<open>
  \<^verbatim>\<open>obj[k]\<close> on a plain object finds an own property first and a member of
  \<^verbatim>\<open>Object.prototype\<close> otherwise. The inherited members are functions, and
  \<^verbatim>\<open>__proto__\<close> is the prototype object itself: all of them are truthy.
\<close>

definition object_prototype_keys :: "string list" where
  "object_prototype_keys =
     [''constructor'', ''__defineGetter__'', ''__defineSetter__'', ''hasOwnProperty'',
      ''__lookupGetter__'', ''__lookupSetter__'', ''isPrototypeOf'',
      ''propertyIsEnumerable'', ''toString'', ''valueOf'', ''__proto__'',
      ''toLocaleString'']"

datatype 'a js_val = Own 'a | Inherited string

definition js_get :: "(string \<Rightarrow> 'a option) \<Rightarrow> string \<Rightarrow> 'a js_val option" where
  "js_get obj k =
     (case obj k of
        Some v \<Rightarrow> Some (Own v)
      | None \<Rightarrow> if k \<in> set object_prototype_keys then Some (Inherited k) else None)"

text \<open>
  \<^verbatim>\<open>obj[k] = v\<close> for a string \<open>v\<close>: the inherited \<^verbatim>\<open>__proto__\<close> setter ignores a
  primitive, so nothing is stored under that name unless it is an own property already.
\<close>

definition js_set :: "(string \<Rightarrow> string option) \<Rightarrow> string \<Rightarrow> string \<Rightarrow> (string \<Rightarrow> string option)" where
  "js_set obj k v = (if k = ''__proto__'' \<and> obj k = None then obj else obj(k \<mapsto> v))"

text \<open>A looked-up value used as a property name: \<^verbatim>\<open>ToString\<close> of it.\<close>

definition property_key :: "string js_val \<Rightarrow> string" where
  "property_key v =
     (case v of
        Own k \<Rightarrow> k
      | Inherited n \<Rightarrow>
          if n = ''__proto__'' then ''[object Object]''
          else ''function '' @ n @ ''() { [native code] }'')"

text \<open>Truthiness of a looked-up string: a missing property and the empty string are falsy.\<close>

definition truthy :: "string js_val \<Rightarrow> bool" where
  "truthy v = (case v of Own k \<Rightarrow> k \<noteq> [] | Inherited n \<Rightarrow> True)"

subsection \<open>JSON storage\<close>

text \<open>
  \<^verbatim>\<open>fs.writeFileSync\<close> either returns, and the file holds the data, or throws, and the
  file holds whatever the failed write left there.
\<close>

datatype 'a write_outcome = Written | Throws "'a option"

datatype error = WriteFailed

definition loadJSON :: "'a option \<Rightarrow> 'a \<Rightarrow> 'a" where
  "loadJSON file fallback = (case file of Some d \<Rightarrow> d | None \<Rightarrow> fallback)"

definition saveJSON :: "'a write_outcome \<Rightarrow> 'a \<Rightarrow> (error + unit) \<times> 'a option" where
  "saveJSON w d = (case w of Written \<Rightarrow> (Inr (), Some d) | Throws left \<Rightarrow> (Inl WriteFailed, left))"

definition initial_state :: "users_db option \<Rightarrow> (string \<Rightarrow> int option) option \<Rightarrow> server_state" where
  "initial_state uf gf =
     \<lparr>users = loadJSON uf \<lparr>byKey = Map.empty, byEmail = Map.empty\<rparr>,
      usage = loadJSON gf Map.empty,
      users_file = uf, usage_file = gf\<rparr>"

definition persistUsers :: "users_db write_outcome \<Rightarrow> server_state \<Rightarrow> (error + unit) \<times> server_state" where
  "persistUsers w s =
     (case saveJSON w (users s) of (r, f) \<Rightarrow> (r, s\<lparr>users_file := f\<rparr>))"

definition persistUsage :: "(string \<Rightarrow> int option) write_outcome \<Rightarrow> server_state \<Rightarrow> (error + unit) \<times> server_state" where
  "persistUsage w s =
     (case saveJSON w (usage s) of (r, f) \<Rightarrow> (r, s\<lparr>usage_file := f\<rparr>))"

subsection \<open>Auth\<close>

text \<open>
  \<^verbatim>\<open>
  function generateApiKey() {
    const bytes = require('crypto').randomBytes(32);
    return 'mp_' + bytes.toString('hex');
  }
  \<close>
  The argument is the bytes the generator returns.
\<close>

definition hex_digit :: "nat \<Rightarrow> char" where
  "hex_digit d = ''0123456789abcdef'' ! (d mod 16)"

definition hex_byte :: "8 word \<Rightarrow> string" where
  "hex_byte b = [hex_digit (unat b div 16), hex_digit (unat b)]"

definition generateApiKey :: "8 word list \<Rightarrow> string" where
  "generateApiKey bytes = ''mp_'' @ concat (map hex_byte bytes)"

text \<open>What one call of \<^verbatim>\<open>registerUser\<close> reads from its environment.\<close>

record register_env =
  random_bytes :: "8 word list"
  uuid :: string
  created_clock :: int
  users_write :: "users_db write_outcome"

record register_result =
  apiKey :: "string js_val"
  user :: "user js_val"

text \<open>
  \<^verbatim>\<open>
  function registerUser(email) {
    const existing = users.byEmail[email];
    if (existing) {
      const user = users.byKey[existing];
      if (user) return { apiKey: existing, user };
    }
    const apiKey = generateApiKey();
    const user = { userId: uuidv4(), email, plan: 'free', createdAt: new Date().toISOString() };
    users.byKey[apiKey] = user;
    users.byEmail[email] = apiKey;
    persistUsers();
    return { apiKey, user };
  }
  \<close>
  \<open>createUser\<close> is the second half, from \<^verbatim>\<open>generateApiKey()\<close> on. The new key starts
  with \<^verbatim>\<open>mp_\<close>, so the assignment to \<^verbatim>\<open>users.byKey[apiKey]\<close> stores an own property.
  An exception of \<^verbatim>\<open>persistUsers\<close> leaves the function after both assignments.
\<close>

definition createUser :: "server_state \<Rightarrow> string \<Rightarrow> register_env \<Rightarrow> (error + register_result) \<times> server_state" where
  "createUser s addr env =
     (let newKey = generateApiKey (random_bytes env);
          newUser = \<lparr>userId = uuid env, email = addr, plan = Free,
                     createdAt = toISOString (created_clock env)\<rparr>;
          s1 = s\<lparr>users := \<lparr>byKey = (byKey (users s))(newKey \<mapsto> newUser),
                              byEmail = js_set (byEmail (users s)) addr newKey\<rparr>\<rparr>
      in case persistUsers (users_write env) s1 of
           (Inl e, s2) \<Rightarrow> (Inl e, s2)
         | (Inr _, s2) \<Rightarrow> (Inr \<lparr>apiKey = Own newKey, user = Own newUser\<rparr>, s2))"

definition registerUser :: "server_state \<Rightarrow> string \<Rightarrow> register_env \<Rightarrow> (error + register_result) \<times> server_state" where
  "registerUser s addr env =
     (case js_get (byEmail (users s)) addr of
        None \<Rightarrow> createUser s addr env
      | Some existing \<Rightarrow>
          if truthy existing then
            (case js_get (byKey (users s)) (property_key existing) of
               Some found \<Rightarrow> (Inr \<lparr>apiKey = existing, user = found\<rparr>, s)
             | None \<Rightarrow> createUser s addr env)
          else createUser s addr env)"

text \<open>
  \<^verbatim>\<open>
  function validateApiKey(apiKey) {
    if (apiKey.includes('@')) {
      const storedKey = users.byEmail[apiKey];
      if (!storedKey) return null;
      return users.byKey[storedKey] || null;
    }
    return users.byKey[apiKey] || null;
  }
  \<close>
  \<open>None\<close> is \<^verbatim>\<open>null\<close>. A stored user and an inherited member are both truthy.
\<close>

definition validateApiKey :: "users_db \<Rightarrow> string \<Rightarrow> user js_val option" where
  "validateApiKey us presented =
     (if CHR ''@'' \<in> set presented then
        (case js_get (byEmail us) presented of
           None \<Rightarrow> None
         | Some storedKey \<Rightarrow>
             if \<not> truthy storedKey then None
             else js_get (byKey us) (property_key storedKey))
      else js_get (byKey us) presented)"

subsection \<open>Rate limiting\<close>

text \<open>What one call of \<^verbatim>\<open>checkAndIncrement\<close> reads: the clock, once in \<^verbatim>\<open>todayStr\<close> and
  once in \<^verbatim>\<open>endOfDayUnix\<close>, and the outcome of the file write.\<close>

record call_env =
  today_clock :: int
  reset_clock :: int
  usage_write :: "(string \<Rightarrow> int option) write_outcome"

record rate_headers =
  X_RateLimit_Limit :: string
  X_RateLimit_Remaining :: string
  X_RateLimit_Reset :: string

record decision =
  allowed :: bool
  used :: int
  limit :: int
  remaining :: int
  resetAt :: "int option"
  headers :: rate_headers

text \<open>
  \<^verbatim>\<open>usage[key] || 0\<close>. The key holds a colon, which no member of \<^verbatim>\<open>Object.prototype\<close>
  does, so the lookup sees own properties only (\<open>usage_key_not_inherited\<close> below).
\<close>

definition usage_or_0 :: "(string \<Rightarrow> int option) \<Rightarrow> string \<Rightarrow> int" where
  "usage_or_0 g key = (case g key of None \<Rightarrow> 0 | Some c \<Rightarrow> c)"

text \<open>\<^verbatim>\<open>`${user.userId}:${todayStr()}`\<close>\<close>

definition usage_key :: "user \<Rightarrow> int \<Rightarrow> string" where
  "usage_key u now = userId u @ '':'' @ todayStr now"

text \<open>
  \<^verbatim>\<open>
  function checkAndIncrement(user) {
    const key = `${user.userId}:${todayStr()}`;
    const limit = LIMITS[user.plan];
    const resetAt = endOfDayUnix();
    const used = usage[key] || 0;
    const allowed = used < limit;
    const remaining = Math.max(0, limit === Infinity ? 9999 : limit - used);
    const headers = {
      'X-RateLimit-Limit': limit === Infinity ? 'unlimited' : String(limit),
      'X-RateLimit-Remaining': String(remaining),
      'X-RateLimit-Reset': String(resetAt),
    };
    if (allowed) {
      usage[key] = used + 1;
      persistUsage();
    }
    return { allowed, used: allowed ? used + 1 : used, limit: limit === Infinity ? -1 : limit,
             remaining: allowed ? remaining - 1 : remaining, resetAt, headers };
  }
  \<close>
  An exception of \<^verbatim>\<open>persistUsage\<close> leaves the function after the counter was written.
\<close>

definition checkAndIncrement :: "server_state \<Rightarrow> user \<Rightarrow> call_env \<Rightarrow> (error + decision) \<times> server_state" where
  "checkAndIncrement s u env =
     (let key = usage_key u (today_clock env);
          lim = LIMITS (plan u);
          reset = endOfDayUnix (reset_clock env);
          usedBefore = usage_or_0 (usage s) key;
          isAllowed = (case lim of Infinity \<Rightarrow> True | Finite l \<Rightarrow> usedBefore < l);
          remainingBefore = max 0 (case lim of Infinity \<Rightarrow> 9999 | Finite l \<Rightarrow> l - usedBefore);
          hdrs = \<lparr>X_RateLimit_Limit =
                    (case lim of Infinity \<Rightarrow> ''unlimited'' | Finite l \<Rightarrow> String_int l),
                  X_RateLimit_Remaining = String_int remainingBefore,
                  X_RateLimit_Reset = String_num reset\<rparr>;
          result = \<lparr>allowed = isAllowed,
                    used = (if isAllowed then usedBefore + 1 else usedBefore),
                    limit = (case lim of Infinity \<Rightarrow> - 1 | Finite l \<Rightarrow> l),
                    remaining = (if isAllowed then remainingBefore - 1 else remainingBefore),
                    resetAt = reset,
                    headers = hdrs\<rparr>
      in if isAllowed then
           (case persistUsage (usage_write env) (s\<lparr>usage := (usage s)(key \<mapsto> usedBefore + 1)\<rparr>) of
              (Inl e, s') \<Rightarrow> (Inl e, s')
            | (Inr _, s') \<Rightarrow> (Inr result, s'))
         else (Inr result, s))"

record usage_snapshot =
  snapshot_plan :: plan
  used_today :: int
  snapshot_limit :: int
  snapshot_remaining :: int
  resets_at :: "int option"

text \<open>
  \<^verbatim>\<open>
  function getUsage(user) {
    const key = `${user.userId}:${todayStr()}`;
    const used = usage[key] || 0;
    const limit = LIMITS[user.plan];
    return { plan: user.plan, used_today: used, limit: limit === Infinity ? -1 : limit,
             remaining: limit === Infinity ? -1 : Math.max(0, limit - used),
             resets_at: endOfDayUnix() };
  }
  \<close>
  The two integers are the two readings of the clock. The state is not changed.
\<close>

definition getUsage :: "server_state \<Rightarrow> user \<Rightarrow> int \<Rightarrow> int \<Rightarrow> usage_snapshot" where
  "getUsage s u today_now reset_now =
     (let key = usage_key u today_now;
          usedBefore = usage_or_0 (usage s) key;
          lim = LIMITS (plan u)
      in \<lparr>snapshot_plan = plan u,
          used_today = usedBefore,
          snapshot_limit = (case lim of Infinity \<Rightarrow> - 1 | Finite l \<Rightarrow> l),
          snapshot_remaining = (case lim of Infinity \<Rightarrow> - 1 | Finite l \<Rightarrow> max 0 (l - usedBefore)),
          resets_at = endOfDayUnix reset_now\<rparr>)"

subsection \<open>The Express routes and middleware\<close>

datatype http_error = INVALID_REQUEST | UNAUTHORIZED | RATE_LIMIT_EXCEEDED | INTERNAL_ERROR

text \<open>
  What a handler or a middleware does: it answers with a body, answers with an error
  code, or an exception escapes it.
\<close>

datatype 'a reply = Answer 'a | Refuse http_error | Uncaught error

record register_body =
  api_key :: "string js_val"
  body_plan :: "plan option"

text \<open>
  \<^verbatim>\<open>
  app.post('/api/auth/register', (req, res) => {
    const { email } = req.body || {};
    if (!email || !email.includes('@'))
      return res.status(400).json({ error: 'Valid email required', code: 'INVALID_REQUEST' });
    const result = registerUser(email);
    res.json({ api_key: result.apiKey, plan: result.user.plan });
  });
  \<close>
  The argument is the \<^verbatim>\<open>email\<close> string of the body, \<open>None\<close> when there is none (a body
  whose \<^verbatim>\<open>email\<close> is not a string is left out). The \<^verbatim>\<open>plan\<close> of an inherited member is
  \<^verbatim>\<open>undefined\<close> (\<open>None\<close>). An exception of \<^verbatim>\<open>registerUser\<close> escapes the handler.
\<close>

definition post_register :: "server_state \<Rightarrow> string option \<Rightarrow> register_env \<Rightarrow> register_body reply \<times> server_state" where
  "post_register s body env =
     (case body of
        None \<Rightarrow> (Refuse INVALID_REQUEST, s)
      | Some addr \<Rightarrow>
          if addr = [] \<or> CHR ''@'' \<notin> set addr then (Refuse INVALID_REQUEST, s)
          else
            (case registerUser s addr env of
               (Inl e, s') \<Rightarrow> (Uncaught e, s')
             | (Inr r, s') \<Rightarrow>
                 (Answer \<lparr>api_key = apiKey r,
                          body_plan = (case user r of Own a \<Rightarrow> Some (plan a) | Inherited n \<Rightarrow> None)\<rparr>,
                  s')))"

text \<open>
  \<^verbatim>\<open>
  function authMiddleware(req, res, next) {
    const apiKey = req.headers['x-api-key'];
    if (!apiKey) return res.status(401).json({ error: 'Missing X-API-Key header', code: 'UNAUTHORIZED' });
    const user = validateApiKey(apiKey);
    if (!user) return res.status(401).json({ error: 'Invalid API key', code: 'UNAUTHORIZED' });
    req.user = user;
    next();
  }
  \<close>
  \<open>Answer v\<close> is the call of \<^verbatim>\<open>next()\<close> with \<^verbatim>\<open>req.user = v\<close>.
\<close>

definition authMiddleware :: "server_state \<Rightarrow> string option \<Rightarrow> user js_val reply" where
  "authMiddleware s header =
     (case header of
        None \<Rightarrow> Refuse UNAUTHORIZED
      | Some presented \<Rightarrow>
          if presented = [] then Refuse UNAUTHORIZED
          else
            (case validateApiKey (users s) presented of
               None \<Rightarrow> Refuse UNAUTHORIZED
             | Some v \<Rightarrow> Answer v))"

text \<open>
  \<^verbatim>\<open>
  function rateLimitMiddleware(req, res, next) {
    const result = checkAndIncrement(req.user);
    if (!result.allowed) {
      Object.entries(result.headers).forEach(([k, v]) => res.header(k, v));
      return res.status(429).json({ error: 'Rate limit exceeded', code: 'RATE_LIMIT_EXCEEDED', retry_after: 3600 });
    }
    req.rateHeaders = result.headers;
    next();
  }
  \<close>
  The result pairs the headers that reach the response (on the 429 at once, on a
  success when the route copies \<^verbatim>\<open>req.rateHeaders\<close>) with whether the request goes on.
\<close>

datatype gate = Reject429 rate_headers | Continue rate_headers

definition rateLimitMiddleware :: "server_state \<Rightarrow> user \<Rightarrow> call_env \<Rightarrow> (error + gate) \<times> server_state" where
  "rateLimitMiddleware s u env =
     (case checkAndIncrement s u env of
        (Inl e, s') \<Rightarrow> (Inl e, s')
      | (Inr r, s') \<Rightarrow>
          (Inr (if \<not> allowed r then Reject429 (headers r) else Continue (headers r)), s'))"

subsection \<open>Sequences of calls\<close>

text \<open>Calls of \<^verbatim>\<open>checkAndIncrement\<close> for one user, one after the other; the results in order.\<close>

fun consume_all :: "server_state \<Rightarrow> user \<Rightarrow> call_env list \<Rightarrow> (error + decision) list \<times> server_state" where
  "consume_all s u [] = ([], s)"
| "consume_all s u (env # envs) =
     (case checkAndIncrement s u env of
        (r, s') \<Rightarrow> (case consume_all s' u envs of (rs, s'') \<Rightarrow> (r # rs, s'')))"

text \<open>
  Any mix of \<^verbatim>\<open>checkAndIncrement\<close> and \<^verbatim>\<open>getUsage\<close> calls, by any users. Only the state
  is followed: \<^verbatim>\<open>getUsage\<close> returns a snapshot and assigns nothing.
\<close>

datatype ledger_op = Consume user call_env | Peek user int int

fun ledger_step :: "server_state \<Rightarrow> ledger_op \<Rightarrow> server_state" where
  "ledger_step s (Consume u env) = snd (checkAndIncrement s u env)"
| "ledger_step s (Peek u today_now reset_now) = s"

fun ledger_run :: "server_state \<Rightarrow> ledger_op list \<Rightarrow> server_state" where
  "ledger_run s [] = s"
| "ledger_run s (x # xs) = ledger_run (ledger_step s x) xs"

text \<open>An operation made for a free-plan account (a \<^verbatim>\<open>getUsage\<close> never writes).\<close>

fun free_op :: "ledger_op \<Rightarrow> bool" where
  "free_op (Consume u env) = (plan u = Free)"
| "free_op (Peek u a b) = True"

subsection \<open>What the specification names\<close>

text \<open>
  The time of the next UTC midnight after \<open>now\<close> (milliseconds), in seconds since the
  epoch: the start of the day after the day \<open>now\<close> lies in.
\<close>

definition next_utc_midnight :: "int \<Rightarrow> int" where
  "next_utc_midnight now = (now div 86400000 + 1) * 86400"

subsection \<open>Examples used to instantiate the theorems\<close>

definition alice :: user where
  "alice = \<lparr>userId = ''7c9e6679-7425-40de-944b-e07fc1f90ae7'', email = ''alice@example.com'',
            plan = Free, createdAt = ''2024-12-31T08:00:00.000Z''\<rparr>"

definition bob :: user where
  "bob = \<lparr>userId = ''16fd2706-8baf-433b-82eb-8c7fada847da'', email = ''bob@example.com'',
          plan = Pro, createdAt = ''2024-12-31T09:00:00.000Z''\<rparr>"

definition empty_state :: server_state where
  "empty_state = initial_state None None"

text \<open>2024-12-31T23:59:59.999Z, the last millisecond of a year.\<close>

definition new_years_eve :: int where
  "new_years_eve = 1735689599999"

definition call_ok :: call_env where
  "call_ok = \<lparr>today_clock = new_years_eve, reset_clock = new_years_eve, usage_write = Written\<rparr>"

definition register_ok :: register_env where
  "register_ok = \<lparr>random_bytes = replicate 32 0, uuid = ''7c9e6679-7425-40de-944b-e07fc1f90ae7'',
                  created_clock = new_years_eve, users_write = Written\<rparr>"

definition register_failing :: register_env where
  "register_failing = register_ok\<lparr>users_write := Throws None\<rparr>"

section \<open>Properties\<close>

subsection \<open>Decimal strings\<close>

lemma decimal_digit: "n < 10 \<Longrightarrow> decimal n = [digit_char n]"
  by (simp add: decimal.simps [of n])

lemma decimal_more: "10 \<le> n \<Longrightarrow> decimal n = decimal (n div 10) @ [digit_char n]"
  by (simp add: decimal.simps [of n])

lemma String_int_10: "String_int 10 = ''10''"
  by (simp add: String_int_def decimal_digit decimal_more digit_char_def)

lemma String_int_9999: "String_int 9999 = ''9999''"
  by (simp add: String_int_def decimal_digit decimal_more digit_char_def)

lemma String_int_0: "String_int 0 = ''0''"
  by (simp add: String_int_def decimal_digit decimal_more digit_char_def)

subsection \<open>Keys and inherited members\<close>

lemma usage_key_not_inherited: "usage_key u now \<notin> set object_prototype_keys"
proof -
  have "CHR '':'' \<in> set (usage_key u now)" by (simp add: usage_key_def)
  moreover have "\<forall>k \<in> set object_prototype_keys. CHR '':'' \<notin> set k"
    by (simp add: object_prototype_keys_def)
  ultimately show ?thesis by blast
qed

lemma at_sign_not_inherited: "CHR ''@'' \<in> set k \<Longrightarrow> k \<notin> set object_prototype_keys"
proof -
  have "\<forall>k \<in> set object_prototype_keys. CHR ''@'' \<notin> set k"
    by (simp add: object_prototype_keys_def)
  then show "CHR ''@'' \<in> set k \<Longrightarrow> k \<notin> set object_prototype_keys" by blast
qed

lemma hex_digit_cases: "hex_digit d \<in> set ''0123456789abcdef''"
proof -
  have "d mod 16 < 16" by simp
  then have "''0123456789abcdef'' ! (d mod 16) \<in> set ''0123456789abcdef''"
    by (intro nth_mem) simp
  then show ?thesis by (simp only: hex_digit_def)
qed

lemma hex_digit_not_at: "hex_digit d \<noteq> CHR ''@''" "CHR ''@'' \<noteq> hex_digit d"
  using hex_digit_cases [of d] by auto

lemma generateApiKey_no_at: "CHR ''@'' \<notin> set (generateApiKey bytes)"
  by (auto simp: generateApiKey_def hex_byte_def hex_digit_not_at)

lemma generateApiKey_not_empty: "generateApiKey bytes \<noteq> []"
  by (simp add: generateApiKey_def)

lemma generateApiKey_not_inherited: "generateApiKey bytes \<notin> set object_prototype_keys"
  by (simp add: generateApiKey_def object_prototype_keys_def)

subsection \<open>The calendar\<close>

lemma div_succ:
  fixes x k :: int
  assumes "0 < k"
  shows "(x + 1) div k = x div k + (if (x + 1) mod k = 0 then 1 else 0)"
proof -
  define q r where "q = x div k" and "r = x mod k"
  have b: "0 \<le> r" "r < k" using assms by (simp_all add: r_def)
  have x: "x = k * q + r" by (simp add: q_def r_def)
  show ?thesis
  proof (cases "r + 1 = k")
    case True
    have "k * (q + 1) = k * q + k" by (simp add: distrib_left)
    then have e: "x + 1 = k * (q + 1) + 0"
      using True x by linarith
    have "(x + 1) div k = q + 1"
      using int_div_pos_eq [OF e] assms by simp
    moreover have "(x + 1) mod k = 0"
      using int_mod_pos_eq [OF e] assms by simp
    ultimately show ?thesis by (simp add: q_def)
  next
    case False
    have e: "x + 1 = k * q + (r + 1)" using x by simp
    have r: "0 \<le> r + 1" "r + 1 < k" using b False by linarith+
    have "(x + 1) div k = q" using int_div_pos_eq [OF e r] .
    moreover have "(x + 1) mod k = r + 1" using int_mod_pos_eq [OF e r] .
    ultimately show ?thesis using b by (simp add: q_def)
  qed
qed

lemma mod_shift4: "(y - 1968) mod 4 = (y::int) mod 4"
  using mod_mult_self2 [of y 4 "- 492"] by simp

lemma mod_shift100: "(y - 1900) mod 100 = (y::int) mod 100"
  using mod_mult_self2 [of y 100 "- 19"] by simp

lemma mod_shift400: "(y - 1600) mod 400 = (y::int) mod 400"
  using mod_mult_self2 [of y 400 "- 4"] by simp

lemma DayFromYear_step: "DayFromYear (y + 1) = DayFromYear y + DaysInYear y"
proof -
  have a: "(y + 1 - 1969) div 4 = (y - 1969) div 4 + (if y mod 4 = 0 then 1 else 0)"
    using div_succ [of 4 "y - 1969"] mod_shift4 [of y] by (simp add: algebra_simps)
  have b: "(y + 1 - 1901) div 100 = (y - 1901) div 100 + (if y mod 100 = 0 then 1 else 0)"
    using div_succ [of 100 "y - 1901"] mod_shift100 [of y] by (simp add: algebra_simps)
  have c: "(y + 1 - 1601) div 400 = (y - 1601) div 400 + (if y mod 400 = 0 then 1 else 0)"
    using div_succ [of 400 "y - 1601"] mod_shift400 [of y] by (simp add: algebra_simps)
  have d1: "y mod 400 = 0 \<Longrightarrow> y mod 100 = 0"
    using mod_mod_cancel [of 100 400 y] by simp
  have d2: "y mod 100 = 0 \<Longrightarrow> y mod 4 = 0"
    using mod_mod_cancel [of 4 100 y] by simp
  note d = d1 d2
  show ?thesis
    unfolding DayFromYear_def DaysInYear_def a b c using d by auto
qed

lemma div_bounds:
  fixes x k :: int
  assumes "0 < k"
  shows "k * (x div k) \<le> x" and "x < k * (x div k) + k"
proof -
  have "k * (x div k) + x mod k = x" by simp
  moreover have "0 \<le> x mod k" "x mod k < k" using assms by simp_all
  ultimately show "k * (x div k) \<le> x" and "x < k * (x div k) + k" by linarith+
qed

lemma DayFromYear_linear:
  "146097 * y - 287811596 \<le> 400 * DayFromYear y"
  "400 * DayFromYear y \<le> 146097 * y - 287810501"
proof -
  define A B C where "A = (y - 1969) div 4" and "B = (y - 1901) div 100"
    and "C = (y - 1601) div 400"
  have a: "4 * A \<le> y - 1969" "y - 1969 < 4 * A + 4"
    unfolding A_def by (rule div_bounds, simp)+
  have b: "100 * B \<le> y - 1901" "y - 1901 < 100 * B + 100"
    unfolding B_def by (rule div_bounds, simp)+
  have c: "400 * C \<le> y - 1601" "y - 1601 < 400 * C + 400"
    unfolding C_def by (rule div_bounds, simp)+
  have F: "400 * DayFromYear y = 146000 * y - 287620000 + 400 * A - 400 * B + 400 * C"
    by (simp add: DayFromYear_def A_def B_def C_def)
  show "146097 * y - 287811596 \<le> 400 * DayFromYear y"
    unfolding F using a b c by linarith
  show "400 * DayFromYear y \<le> 146097 * y - 287810501"
    unfolding F using a b c by linarith
qed

lemma YearFromTime_bounds:
  "DayFromYear (YearFromTime t) \<le> Day t \<and> Day t < DayFromYear (YearFromTime t + 1)"
proof -
  define d q where "d = Day t" and "q = (400 * d) div 146097"
  define ylo yhi where "ylo = 1970 + q - 1" and "yhi = 1970 + q + 1 + 1"
  have qb: "146097 * q \<le> 400 * d" "400 * d < 146097 * q + 146097"
    unfolding q_def by (rule div_bounds, simp)+
  have e: "ylo = q + 1969" "yhi = q + 1972" by (simp_all add: ylo_def yhi_def)
  have lo: "DayFromYear ylo \<le> d"
    using qb e DayFromYear_linear(2) [of ylo] by linarith
  have hi: "d < DayFromYear yhi"
    using qb e DayFromYear_linear(1) [of yhi] by linarith
  show ?thesis
    unfolding YearFromTime_def Let_def d_def [symmetric] q_def [symmetric]
    using lo hi by (auto simp: ylo_def yhi_def)
qed

lemma DaysInYear_ge: "365 \<le> DaysInYear y"
  by (simp add: DaysInYear_def)

lemma DayFromYear_add: "DayFromYear y + 365 * int n \<le> DayFromYear (y + int n)"
proof (induction n)
  case 0
  then show ?case by simp
next
  case (Suc n)
  have "DayFromYear (y + int (Suc n)) = DayFromYear (y + int n) + DaysInYear (y + int n)"
    using DayFromYear_step [of "y + int n"] by (simp add: ac_simps)
  then show ?case using Suc DaysInYear_ge [of "y + int n"] by simp
qed

lemma DayFromYear_mono: "y \<le> y' \<Longrightarrow> DayFromYear y \<le> DayFromYear y'"
  using DayFromYear_add [of y "nat (y' - y)"] by simp

lemma YearFromTime_largest: "DayFromYear y \<le> Day t \<Longrightarrow> y \<le> YearFromTime t"
proof (rule ccontr)
  assume le: "DayFromYear y \<le> Day t" and "\<not> y \<le> YearFromTime t"
  then have "YearFromTime t + 1 \<le> y" by simp
  then have "DayFromYear (YearFromTime t + 1) \<le> DayFromYear y" by (rule DayFromYear_mono)
  with le YearFromTime_bounds [of t] show False by linarith
qed

lemma YearFromTime_unique:
  assumes "DayFromYear y \<le> Day t" and "Day t < DayFromYear (y + 1)"
  shows "YearFromTime t = y"
proof -
  have "y \<le> YearFromTime t" using assms(1) by (rule YearFromTime_largest)
  moreover have "YearFromTime t \<le> y"
  proof (rule ccontr)
    assume "\<not> YearFromTime t \<le> y"
    then have "y + 1 \<le> YearFromTime t" by simp
    then have "DayFromYear (y + 1) \<le> DayFromYear (YearFromTime t)" by (rule DayFromYear_mono)
    with assms(2) YearFromTime_bounds [of t] show False by linarith
  qed
  ultimately show ?thesis by simp
qed

lemma Day_of_day: "Day (msPerDay * d) = d"
  by (simp add: Day_def msPerDay_def)

lemma MonthStart_range:
  "0 \<le> mn \<Longrightarrow> mn \<le> 11 \<Longrightarrow> 0 \<le> leap \<Longrightarrow> leap \<le> 1 \<Longrightarrow>
   0 \<le> MonthStart leap mn \<and> MonthStart leap mn \<le> 334 + leap"
  by (simp add: MonthStart_def)

lemma MakeDay_first_of_month:
  fixes ym mn :: int
  assumes "0 \<le> mn" and "mn \<le> 11"
  shows "YearFromTime (msPerDay * MakeDay ym mn 1) = ym
       \<and> MonthFromTime (msPerDay * MakeDay ym mn 1) = mn
       \<and> DateFromTime (msPerDay * MakeDay ym mn 1) = 1"
proof -
  define t where "t = msPerDay * MakeDay ym mn 1"
  define leap :: int where "leap = (if DaysInYear ym = 366 then 1 else 0)"
  have mm: "mn div 12 = 0" "mn mod 12 = mn" using assms by simp_all
  have day: "Day t = DayFromYear ym + MonthStart leap mn"
    by (simp add: t_def Day_of_day MakeDay_def mm leap_def)
  have lp: "0 \<le> leap" "leap \<le> 1" by (simp_all add: leap_def)
  have diy: "DaysInYear ym = 365 + leap" by (simp add: leap_def DaysInYear_def)
  note ms = MonthStart_range [OF assms(1,2) lp]
  have y: "YearFromTime t = ym"
    by (rule YearFromTime_unique) (use day ms diy DayFromYear_step [of ym] in linarith)+
  have il: "InLeapYear t = leap" by (simp add: InLeapYear_def y leap_def)
  have dw: "DayWithinYear t = MonthStart leap mn" by (simp add: DayWithinYear_def y day)
  have cases: "mn = 0 \<or> mn = 1 \<or> mn = 2 \<or> mn = 3 \<or> mn = 4 \<or> mn = 5 \<or> mn = 6 \<or> mn = 7
      \<or> mn = 8 \<or> mn = 9 \<or> mn = 10 \<or> mn = 11"
    using assms by presburger
  have m: "MonthFromTime t = mn"
    using cases lp by (auto simp: MonthFromTime_def il dw MonthStart_def)
  have "DateFromTime t = 1"
    using cases lp by (auto simp: DateFromTime_def m il dw MonthStart_def)
  with y m show ?thesis by (simp add: t_def)
qed

lemma MonthFromTime_range: "0 \<le> MonthFromTime t \<and> MonthFromTime t \<le> 11"
  by (simp add: MonthFromTime_def Let_def)

lemma MonthStart_DateFromTime:
  "MonthStart (InLeapYear t) (MonthFromTime t) + DateFromTime t = DayWithinYear t + 1"
  by (simp add: DateFromTime_def MonthStart_def Let_def)

lemma MakeDay_next_day:
  "MakeDay (YearFromTime t) (MonthFromTime t) (DateFromTime t + 1) = Day t + 1"
proof -
  have m: "MonthFromTime t div 12 = 0" "MonthFromTime t mod 12 = MonthFromTime t"
    using MonthFromTime_range [of t] by simp_all
  have "MakeDay (YearFromTime t) (MonthFromTime t) (DateFromTime t + 1)
      = DayFromYear (YearFromTime t)
        + (MonthStart (InLeapYear t) (MonthFromTime t) + DateFromTime t)"
    by (simp add: MakeDay_def m InLeapYear_def)
  also have "\<dots> = Day t + 1"
    by (simp add: MonthStart_DateFromTime DayWithinYear_def)
  finally show ?thesis .
qed

lemma YearFromTime_after_epoch:
  assumes "0 \<le> t"
  shows "1970 \<le> YearFromTime t"
proof -
  have "DayFromYear 1970 \<le> Day t"
    using assms by (simp add: DayFromYear_def Day_def msPerDay_def pos_imp_zdiv_nonneg_iff)
  then show ?thesis by (rule YearFromTime_largest)
qed

lemma endOfDayUnix_value:
  assumes "0 \<le> now" and "now < 8640000000000000"
  shows "endOfDayUnix now = Some (next_utc_midnight now)"
proof -
  define q where "q = now div 86400000"
  have y: "MakeFullYear (YearFromTime now) = YearFromTime now"
    using YearFromTime_after_epoch [OF assms(1)] by (simp add: MakeFullYear_def)
  have d0: "0 \<le> q" using assms(1) by (simp add: q_def pos_imp_zdiv_nonneg_iff)
  have "86400000 * q \<le> now"
    unfolding q_def by (rule div_bounds) simp
  then have d1: "q < 100000000"
    using assms(2) by linarith
  have day: "Day now = q" by (simp add: Day_def msPerDay_def q_def)
  have utc: "Date_UTC (YearFromTime now) (MonthFromTime now) (DateFromTime now + 1)
      = TimeClip ((q + 1) * 86400000)"
    by (simp add: Date_UTC_def y MakeDay_next_day MakeDate_def MakeTime_def day msPerDay_def)
  have clip: "TimeClip ((q + 1) * 86400000) = Some ((q + 1) * 86400000)"
    using d0 d1 by (simp add: TimeClip_def)
  have "(q + 1) * 86400000 div 1000 = (q + 1) * 86400"
    by simp
  then have "endOfDayUnix now = Some ((q + 1) * 86400)"
    by (simp only: endOfDayUnix_def utc clip option.case)
  then show ?thesis
    by (simp only: next_utc_midnight_def q_def)
qed

lemma next_utc_midnight_is_midnight:
  "next_utc_midnight now mod 86400 = 0
   \<and> now < 1000 * next_utc_midnight now
   \<and> 1000 * next_utc_midnight now \<le> now + 86400000"
proof -
  define q where "q = now div 86400000"
  have b: "86400000 * q \<le> now" "now < 86400000 * q + 86400000"
    unfolding q_def by (rule div_bounds, simp)+
  have e: "next_utc_midnight now = (q + 1) * 86400" by (simp add: next_utc_midnight_def q_def)
  have "1000 * ((q + 1) * 86400) = 86400000 * q + 86400000" by (simp add: algebra_simps)
  then show ?thesis unfolding e using b by simp
qed

lemma Year_Month_Date_of_Day:
  assumes "Day t = Day t'"
  shows "YearFromTime t = YearFromTime t'" and "MonthFromTime t = MonthFromTime t'"
    and "DateFromTime t = DateFromTime t'"
proof -
  show y: "YearFromTime t = YearFromTime t'"
    by (simp only: YearFromTime_def assms)
  have l: "InLeapYear t = InLeapYear t'" by (simp only: InLeapYear_def y)
  have d: "DayWithinYear t = DayWithinYear t'" by (simp only: DayWithinYear_def y assms)
  show m: "MonthFromTime t = MonthFromTime t'" by (simp only: MonthFromTime_def l d)
  show "DateFromTime t = DateFromTime t'" by (simp only: DateFromTime_def l d m)
qed

lemma length_pad0: "w \<le> length (pad0 w n)"
  by (simp add: pad0_def)

lemma length_iso_year: "4 \<le> length (iso_year y)"
  using length_pad0 [of 4 "nat y"] length_pad0 [of 6 "nat \<bar>y\<bar>"]
  by (simp add: iso_year_def)

lemma todayStr_date_part:
  "todayStr t = take 10 (iso_year (YearFromTime t) @ ''-'' @ pad0 2 (nat (MonthFromTime t + 1))
     @ ''-'' @ pad0 2 (nat (DateFromTime t)))"
proof -
  define A where "A = iso_year (YearFromTime t) @ ''-'' @ pad0 2 (nat (MonthFromTime t + 1))
     @ ''-'' @ pad0 2 (nat (DateFromTime t))"
  have "10 \<le> length A"
    using length_iso_year [of "YearFromTime t"] length_pad0 [of 2 "nat (MonthFromTime t + 1)"]
      length_pad0 [of 2 "nat (DateFromTime t)"]
    by (simp add: A_def)
  moreover have "\<exists>B. toISOString t = A @ B"
    by (simp add: toISOString_def A_def Let_def)
  ultimately have "take 10 (toISOString t) = take 10 A" by auto
  then show ?thesis by (simp add: todayStr_def A_def)
qed

lemma todayStr_same_day:
  assumes "Day t = Day t'"
  shows "todayStr t = todayStr t'"
  unfolding todayStr_date_part
  by (simp only: Year_Month_Date_of_Day [OF assms])

lemma usage_key_same_day:
  assumes "Day t = Day t'"
  shows "usage_key u t = usage_key u t'"
  by (simp only: usage_key_def todayStr_same_day [OF assms])

text \<open>The calendar at the end of a leap year and on a leap day.\<close>

lemma toISOString_new_years_eve: "toISOString new_years_eve = ''2024-12-31T23:59:59.999Z''"
  by (simp add: toISOString_def TimeWithinDay_def YearFromTime_def MonthFromTime_def
      DateFromTime_def InLeapYear_def DayWithinYear_def DaysInYear_def DayFromYear_def Day_def
      msPerDay_def new_years_eve_def iso_year_def pad0_def decimal_digit decimal_more
      digit_char_def Let_def)

lemma todayStr_new_years_eve: "todayStr new_years_eve = ''2024-12-31''"
  by (simp add: todayStr_def toISOString_new_years_eve)

lemma todayStr_leap_day: "todayStr 1709164800000 = ''2024-02-29''"
  by (simp add: todayStr_date_part YearFromTime_def MonthFromTime_def DateFromTime_def
      InLeapYear_def DayWithinYear_def DaysInYear_def DayFromYear_def Day_def msPerDay_def
      iso_year_def pad0_def decimal_digit decimal_more digit_char_def Let_def)

subsection \<open>\<^verbatim>\<open>checkAndIncrement\<close>, unfolded for each plan\<close>

lemma checkAndIncrement_Free_allowed:
  assumes "plan u = Free" and "usage_or_0 (usage s) (usage_key u (today_clock env)) < 10"
  shows "checkAndIncrement s u env =
     (let key = usage_key u (today_clock env); c = usage_or_0 (usage s) key;
          s1 = s\<lparr>usage := (usage s)(key \<mapsto> c + 1)\<rparr>
      in case usage_write env of
           Written \<Rightarrow>
             (Inr \<lparr>allowed = True, used = c + 1, limit = 10, remaining = 10 - c - 1,
                   resetAt = endOfDayUnix (reset_clock env),
                   headers = \<lparr>X_RateLimit_Limit = String_int 10,
                              X_RateLimit_Remaining = String_int (10 - c),
                              X_RateLimit_Reset = String_num (endOfDayUnix (reset_clock env))\<rparr>\<rparr>,
              s1\<lparr>usage_file := Some (usage s1)\<rparr>)
         | Throws left \<Rightarrow> (Inl WriteFailed, s1\<lparr>usage_file := left\<rparr>))"
  using assms
  by (simp add: checkAndIncrement_def LIMITS_def Let_def persistUsage_def saveJSON_def
      split: write_outcome.split)

lemma checkAndIncrement_Free_denied:
  assumes "plan u = Free" and "10 \<le> usage_or_0 (usage s) (usage_key u (today_clock env))"
  shows "checkAndIncrement s u env =
     (let c = usage_or_0 (usage s) (usage_key u (today_clock env))
      in (Inr \<lparr>allowed = False, used = c, limit = 10, remaining = 0,
                resetAt = endOfDayUnix (reset_clock env),
                headers = \<lparr>X_RateLimit_Limit = String_int 10,
                           X_RateLimit_Remaining = String_int 0,
                           X_RateLimit_Reset = String_num (endOfDayUnix (reset_clock env))\<rparr>\<rparr>,
          s))"
  using assms
  by (simp add: checkAndIncrement_def LIMITS_def Let_def)

lemma checkAndIncrement_Pro:
  assumes "plan u = Pro"
  shows "checkAndIncrement s u env =
     (let key = usage_key u (today_clock env); c = usage_or_0 (usage s) key;
          s1 = s\<lparr>usage := (usage s)(key \<mapsto> c + 1)\<rparr>
      in case usage_write env of
           Written \<Rightarrow>
             (Inr \<lparr>allowed = True, used = c + 1, limit = - 1, remaining = 9998,
                   resetAt = endOfDayUnix (reset_clock env),
                   headers = \<lparr>X_RateLimit_Limit = ''unlimited'',
                              X_RateLimit_Remaining = String_int 9999,
                              X_RateLimit_Reset = String_num (endOfDayUnix (reset_clock env))\<rparr>\<rparr>,
              s1\<lparr>usage_file := Some (usage s1)\<rparr>)
         | Throws left \<Rightarrow> (Inl WriteFailed, s1\<lparr>usage_file := left\<rparr>))"
  using assms
  by (simp add: checkAndIncrement_def LIMITS_def Let_def persistUsage_def saveJSON_def
      split: write_outcome.split)

lemma usage_or_0_update: "usage_or_0 (g(k \<mapsto> v)) k' = (if k' = k then v else usage_or_0 g k')"
  by (simp add: usage_or_0_def)

subsection \<open>Sequences of calls on the free plan\<close>

lemma checkAndIncrement_Free_step:
  assumes "plan u = Free"
    and "usage_or_0 (usage s) (usage_key u (today_clock env)) = int c"
  shows "\<exists>r s'. checkAndIncrement s u env = (r, s')
     \<and> usage_or_0 (usage s') (usage_key u (today_clock env)) = int (if c < 10 then Suc c else c)
     \<and> (c < 10 \<longrightarrow> (case r of Inr d \<Rightarrow> allowed d \<and> remaining d = 10 - (int c + 1)
                               | Inl e \<Rightarrow> usage_write env \<noteq> Written))
     \<and> (10 \<le> c \<longrightarrow> (\<exists>d. r = Inr d \<and> \<not> allowed d \<and> remaining d = 0))"
proof (cases "c < 10")
  case True
  then have "usage_or_0 (usage s) (usage_key u (today_clock env)) < 10"
    using assms(2) by simp
  from checkAndIncrement_Free_allowed [OF assms(1) this] True assms(2)
  show ?thesis
    by (cases "usage_write env") (simp_all add: Let_def usage_or_0_update)
next
  case False
  then have "10 \<le> usage_or_0 (usage s) (usage_key u (today_clock env))"
    using assms(2) by simp
  from checkAndIncrement_Free_denied [OF assms(1) this] False assms(2)
  show ?thesis
    by (simp add: Let_def)
qed

lemma consume_all_Cons:
  "checkAndIncrement s u env = (r, s') \<Longrightarrow>
   consume_all s u (env # envs) = (r # fst (consume_all s' u envs), snd (consume_all s' u envs))"
  by (simp split: prod.split)

lemma consume_all_free_from:
  assumes "plan u = Free"
  shows "usage_or_0 (usage s) (usage_key u t0) = int c \<Longrightarrow>
     \<forall>env \<in> set envs. Day (today_clock env) = Day t0 \<Longrightarrow>
     \<forall>i < length envs.
       (i + c < 10 \<longrightarrow>
          (case fst (consume_all s u envs) ! i of
             Inr d \<Rightarrow> allowed d \<and> remaining d = 10 - (int (i + c) + 1)
           | Inl e \<Rightarrow> usage_write (envs ! i) \<noteq> Written))
     \<and> (10 \<le> i + c \<longrightarrow>
          (\<exists>d. fst (consume_all s u envs) ! i = Inr d \<and> \<not> allowed d \<and> remaining d = 0))"
proof (induction envs arbitrary: s c)
  case Nil
  then show ?case by simp
next
  case (Cons env envs)
  have key: "usage_key u (today_clock env) = usage_key u t0"
    using Cons.prems(2) by (intro usage_key_same_day) simp
  define c' where "c' = (if c < 10 then Suc c else c)"
  from checkAndIncrement_Free_step [OF assms, of s env c] Cons.prems(1)
  obtain r s' where step: "checkAndIncrement s u env = (r, s')"
    and cnt: "usage_or_0 (usage s') (usage_key u t0) = int c'"
    and under: "c < 10 \<longrightarrow> (case r of Inr d \<Rightarrow> allowed d \<and> remaining d = 10 - (int c + 1)
                               | Inl e \<Rightarrow> usage_write env \<noteq> Written)"
    and over: "10 \<le> c \<longrightarrow> (\<exists>d. r = Inr d \<and> \<not> allowed d \<and> remaining d = 0)"
    unfolding key c'_def by blast
  have rest: "\<forall>env \<in> set envs. Day (today_clock env) = Day t0"
    using Cons.prems(2) by simp
  note IH = Cons.IH [OF cnt rest, rule_format]
  note unfold = consume_all_Cons [OF step, of envs]
  show ?case
  proof (intro allI impI)
    fix i assume i: "i < length (env # envs)"
    show "(i + c < 10 \<longrightarrow>
          (case fst (consume_all s u (env # envs)) ! i of
             Inr d \<Rightarrow> allowed d \<and> remaining d = 10 - (int (i + c) + 1)
           | Inl e \<Rightarrow> usage_write ((env # envs) ! i) \<noteq> Written))
     \<and> (10 \<le> i + c \<longrightarrow>
          (\<exists>d. fst (consume_all s u (env # envs)) ! i = Inr d \<and> \<not> allowed d \<and> remaining d = 0))"
    proof (cases i)
      case 0
      then show ?thesis using under over
        by (auto simp add: unfold simp del: consume_all.simps split: sum.splits)
    next
      case (Suc j)
      then have j: "j < length envs" using i by simp
      have e: "j + c' = (if c < 10 then i + c else j + c)" "c < 10 \<or> 10 \<le> j + c \<and> 10 \<le> i + c"
        using Suc by (auto simp: c'_def)
      show ?thesis
        using IH [OF j] e
        by (auto simp add: unfold Suc simp del: consume_all.simps split: sum.splits if_splits)
    qed
  qed
qed

text \<open>
  C1. A free-plan account has the daily limit 10. Starting from an unused counter and
  with every call on the same UTC day, the calls are made one after the other. Each of
  the first 10 calls that returns has \<open>allowed = True\<close> (such a call fails to return
  only when the write of the usage file throws), and every call from the 11th on returns
  \<open>allowed = False\<close> with \<open>remaining = 0\<close>.
\<close>

theorem quota_first_calls:
  assumes "plan u = Free"
    and "usage_or_0 (usage s) (usage_key u t0) = 0"
    and "\<forall>env \<in> set envs. Day (today_clock env) = Day t0"
  shows "\<forall>i < length envs.
       (i < 10 \<longrightarrow>
          (case fst (consume_all s u envs) ! i of
             Inr d \<Rightarrow> allowed d
           | Inl e \<Rightarrow> usage_write (envs ! i) \<noteq> Written))
     \<and> (10 \<le> i \<longrightarrow>
          (\<exists>d. fst (consume_all s u envs) ! i = Inr d \<and> \<not> allowed d \<and> remaining d = 0))"
proof (intro allI impI)
  fix i assume i: "i < length envs"
  have "usage_or_0 (usage s) (usage_key u t0) = int 0" using assms(2) by simp
  from consume_all_free_from [OF assms(1) this assms(3), rule_format, OF i]
  have *: "(i < 10 \<longrightarrow>
          (case fst (consume_all s u envs) ! i of
             Inr d \<Rightarrow> allowed d \<and> remaining d = 10 - (int i + 1)
           | Inl e \<Rightarrow> usage_write (envs ! i) \<noteq> Written))
     \<and> (10 \<le> i \<longrightarrow>
          (\<exists>d. fst (consume_all s u envs) ! i = Inr d \<and> \<not> allowed d \<and> remaining d = 0))"
    by (auto split: sum.splits)
  then show "(i < 10 \<longrightarrow>
          (case fst (consume_all s u envs) ! i of
             Inr d \<Rightarrow> allowed d
           | Inl e \<Rightarrow> usage_write (envs ! i) \<noteq> Written))
     \<and> (10 \<le> i \<longrightarrow>
          (\<exists>d. fst (consume_all s u envs) ! i = Inr d \<and> \<not> allowed d \<and> remaining d = 0))"
    by (auto split: sum.splits)
qed

theorem quota_first_calls_witness:
  "plan alice = Free
   \<and> usage_or_0 (usage empty_state) (usage_key alice new_years_eve) = 0
   \<and> (case fst (consume_all empty_state alice (replicate 11 call_ok)) ! 9 of
         Inr d \<Rightarrow> allowed d
       | Inl e \<Rightarrow> False)
   \<and> (\<exists>d. fst (consume_all empty_state alice (replicate 11 call_ok)) ! 10 = Inr d
          \<and> \<not> allowed d \<and> remaining d = 0)"
proof -
  have a: "plan alice = Free" by (simp add: alice_def)
  have b: "usage_or_0 (usage empty_state) (usage_key alice new_years_eve) = 0"
    by (simp add: empty_state_def initial_state_def loadJSON_def usage_or_0_def)
  have c: "\<forall>env \<in> set (replicate 11 call_ok). Day (today_clock env) = Day new_years_eve"
    by (simp add: call_ok_def)
  have w: "usage_write (replicate 11 call_ok ! 9) = Written"
    by (simp add: call_ok_def)
  note t = quota_first_calls [OF a b c, rule_format]
  have "case fst (consume_all empty_state alice (replicate 11 call_ok)) ! 9 of
         Inr d \<Rightarrow> allowed d
       | Inl e \<Rightarrow> False"
    using t [of 9] w by (simp split: sum.splits)
  moreover have "\<exists>d. fst (consume_all empty_state alice (replicate 11 call_ok)) ! 10 = Inr d
          \<and> \<not> allowed d \<and> remaining d = 0"
    using t [of 10] by simp
  ultimately show ?thesis using a b by blast
qed

lemma call_ok_count0: "usage_or_0 (usage empty_state) k = 0"
  by (simp add: empty_state_def initial_state_def loadJSON_def usage_or_0_def)

lemma checkAndIncrement_Free_remaining:
  assumes "plan u = Free" and "fst (checkAndIncrement s u env) = Inr d" and "allowed d"
  shows "remaining d = 10 - (usage_or_0 (usage s) (usage_key u (today_clock env)) + 1)
     \<and> X_RateLimit_Remaining (headers d)
         = String_int (10 - usage_or_0 (usage s) (usage_key u (today_clock env)))"
proof (cases "usage_or_0 (usage s) (usage_key u (today_clock env)) < 10")
  case True
  from checkAndIncrement_Free_allowed [OF assms(1) True] assms(2)
  show ?thesis by (auto simp: Let_def split: write_outcome.splits)
next
  case False
  then have "10 \<le> usage_or_0 (usage s) (usage_key u (today_clock env))" by simp
  from checkAndIncrement_Free_denied [OF assms(1) this] assms(2,3)
  show ?thesis by (auto simp: Let_def)
qed

lemma endOfDayUnix_new_years_eve: "endOfDayUnix new_years_eve = Some 1735689600"
proof -
  have "endOfDayUnix new_years_eve = Some (next_utc_midnight new_years_eve)"
    by (rule endOfDayUnix_value) (simp_all add: new_years_eve_def)
  then show ?thesis by (simp add: next_utc_midnight_def new_years_eve_def)
qed

lemma String_int_reset: "String_int 1735689600 = ''1735689600''"
  by (simp add: String_int_def decimal_digit decimal_more digit_char_def)

subsection \<open>What one call reports\<close>

text \<open>
  C4. The claim: on an allowed call for a free-plan account with count \<open>c\<close>, the
  remaining quota reported in the result and in the \<^verbatim>\<open>X-RateLimit-Remaining\<close> header is
  \<open>10 - (c + 1)\<close>. The code builds the headers before it subtracts: on the first call of
  a day the result says \<open>remaining = 9\<close> and the header that \<^verbatim>\<open>rateLimitMiddleware\<close>
  hands to the route says \<^verbatim>\<open>10\<close>.
\<close>

theorem first_call_header_mismatch:
  "fst (checkAndIncrement empty_state alice call_ok) =
     Inr \<lparr>allowed = True, used = 1, limit = 10, remaining = 9,
          resetAt = Some 1735689600,
          headers = \<lparr>X_RateLimit_Limit = ''10'', X_RateLimit_Remaining = ''10'',
                     X_RateLimit_Reset = ''1735689600''\<rparr>\<rparr>
   \<and> fst (rateLimitMiddleware empty_state alice call_ok) =
     Inr (Continue \<lparr>X_RateLimit_Limit = ''10'', X_RateLimit_Remaining = ''10'',
                     X_RateLimit_Reset = ''1735689600''\<rparr>)"
proof -
  have p: "plan alice = Free" by (simp add: alice_def)
  have c: "usage_or_0 (usage empty_state) (usage_key alice (today_clock call_ok)) < 10"
    by (simp add: call_ok_count0)
  have w: "usage_write call_ok = Written" "reset_clock call_ok = new_years_eve"
    by (simp_all add: call_ok_def)
  show ?thesis
    by (simp add: rateLimitMiddleware_def checkAndIncrement_Free_allowed [OF p c] Let_def w
        call_ok_count0 String_int_10 endOfDayUnix_new_years_eve String_num_def
        String_int_reset)
qed

text \<open>
  C10. For a free-plan account and any stored counter, also one above the limit, the
  remaining quota that \<^verbatim>\<open>checkAndIncrement\<close> reports (in its result and in the header) and
  that \<^verbatim>\<open>getUsage\<close> reports is never negative.
\<close>

theorem remaining_never_negative:
  assumes "plan u = Free"
  shows "(case fst (checkAndIncrement s u env) of
            Inr d \<Rightarrow> 0 \<le> remaining d
               \<and> (\<exists>r. 0 \<le> r \<and> X_RateLimit_Remaining (headers d) = String_int r)
          | Inl e \<Rightarrow> usage_write env \<noteq> Written)
       \<and> 0 \<le> snapshot_remaining (getUsage s u today_now reset_now)"
proof -
  have g: "0 \<le> snapshot_remaining (getUsage s u today_now reset_now)"
    using assms by (simp add: getUsage_def LIMITS_def Let_def)
  show ?thesis
  proof (cases "usage_or_0 (usage s) (usage_key u (today_clock env)) < 10")
    case True
    have "\<exists>r. 0 \<le> r \<and> String_int (10 - usage_or_0 (usage s) (usage_key u (today_clock env)))
        = String_int r"
      using True by (intro exI [of _ "10 - usage_or_0 (usage s) (usage_key u (today_clock env))"]) simp
    with checkAndIncrement_Free_allowed [OF assms True] True g
    show ?thesis by (auto simp: Let_def split: write_outcome.splits)
  next
    case False
    then have "10 \<le> usage_or_0 (usage s) (usage_key u (today_clock env))" by simp
    from checkAndIncrement_Free_denied [OF assms this] g
    show ?thesis by (auto simp: Let_def intro: exI [of _ 0])
  qed
qed

theorem remaining_never_negative_witness:
  "plan alice = Free
   \<and> (case fst (checkAndIncrement (empty_state\<lparr>usage := (\<lambda>k. Some 15)\<rparr>) alice call_ok) of
         Inr d \<Rightarrow> 0 \<le> remaining d
       | Inl e \<Rightarrow> False)
   \<and> 0 \<le> snapshot_remaining
         (getUsage (empty_state\<lparr>usage := (\<lambda>k. Some 15)\<rparr>) alice new_years_eve new_years_eve)"
proof -
  have p: "plan alice = Free" by (simp add: alice_def)
  have r: "\<exists>d. fst (checkAndIncrement (empty_state\<lparr>usage := (\<lambda>k. Some 15)\<rparr>) alice call_ok) = Inr d"
    by (simp add: checkAndIncrement_Free_denied [OF p] usage_or_0_def Let_def)
  show ?thesis
    using p r remaining_never_negative [OF p, where s = "empty_state\<lparr>usage := (\<lambda>k. Some 15)\<rparr>"
        and env = call_ok and today_now = new_years_eve and reset_now = new_years_eve]
    by (auto split: sum.splits)
qed

text \<open>
  C5, as the claim states it, fails: for a pro-plan account the remaining quota that
  \<^verbatim>\<open>checkAndIncrement\<close> reports is a finite number, 9998 in the result and 9999 in the
  header, not the marker that the limit uses (\<open>- 1\<close>, \<^verbatim>\<open>unlimited\<close>).
\<close>

theorem pro_remaining_is_finite:
  "fst (checkAndIncrement empty_state bob call_ok) =
     Inr \<lparr>allowed = True, used = 1, limit = - 1, remaining = 9998,
          resetAt = Some 1735689600,
          headers = \<lparr>X_RateLimit_Limit = ''unlimited'', X_RateLimit_Remaining = ''9999'',
                     X_RateLimit_Reset = ''1735689600''\<rparr>\<rparr>"
proof -
  have p: "plan bob = Pro" by (simp add: bob_def)
  have w: "usage_write call_ok = Written" "reset_clock call_ok = new_years_eve"
    by (simp_all add: call_ok_def)
  show ?thesis
    by (simp add: checkAndIncrement_Pro [OF p] Let_def w call_ok_count0 String_int_9999
        endOfDayUnix_new_years_eve String_num_def String_int_reset)
qed

text \<open>
  C5, amended. A pro-plan account is allowed at every call, whatever its count. The
  limit is reported by the marker: \<open>- 1\<close> in the result and in the usage snapshot,
  \<^verbatim>\<open>unlimited\<close> in the header. The remaining quota is the marker \<open>- 1\<close> in the usage
  snapshot only; the \<^verbatim>\<open>X-RateLimit-Remaining\<close> header of \<^verbatim>\<open>checkAndIncrement\<close> carries
  the fixed number 9999.
\<close>

theorem pro_plan_unbounded:
  assumes "plan u = Pro"
  shows "(case fst (checkAndIncrement s u env) of
            Inr d \<Rightarrow> allowed d \<and> limit d = - 1
               \<and> X_RateLimit_Limit (headers d) = ''unlimited''
               \<and> X_RateLimit_Remaining (headers d) = ''9999''
          | Inl e \<Rightarrow> usage_write env \<noteq> Written)
       \<and> snapshot_limit (getUsage s u today_now reset_now) = - 1
       \<and> snapshot_remaining (getUsage s u today_now reset_now) = - 1"
proof -
  have "snapshot_limit (getUsage s u today_now reset_now) = - 1"
    "snapshot_remaining (getUsage s u today_now reset_now) = - 1"
    using assms by (simp_all add: getUsage_def LIMITS_def Let_def)
  with checkAndIncrement_Pro [OF assms, of s env]
  show ?thesis by (auto simp: Let_def String_int_9999 split: write_outcome.splits)
qed

theorem pro_plan_unbounded_witness:
  "plan bob = Pro
   \<and> (case fst (checkAndIncrement empty_state bob call_ok) of
         Inr d \<Rightarrow> allowed d \<and> limit d = - 1
            \<and> X_RateLimit_Limit (headers d) = ''unlimited''
            \<and> X_RateLimit_Remaining (headers d) = ''9999''
       | Inl e \<Rightarrow> False)
   \<and> snapshot_limit (getUsage empty_state bob new_years_eve new_years_eve) = - 1
   \<and> snapshot_remaining (getUsage empty_state bob new_years_eve new_years_eve) = - 1"
proof -
  have p: "plan bob = Pro" by (simp add: bob_def)
  have w: "usage_write call_ok = Written" by (simp add: call_ok_def)
  show ?thesis
    using p w pro_plan_unbounded [OF p, where s = empty_state and env = call_ok
        and today_now = new_years_eve and reset_now = new_years_eve]
    by (simp split: sum.splits)
qed

subsection \<open>The counters only grow, and not past the limit\<close>

lemma checkAndIncrement_usage:
  "usage (snd (checkAndIncrement s u env)) =
     (let key = usage_key u (today_clock env); c = usage_or_0 (usage s) key
      in if (case LIMITS (plan u) of Infinity \<Rightarrow> True | Finite l \<Rightarrow> c < l)
         then (usage s)(key \<mapsto> c + 1) else usage s)"
  by (simp add: checkAndIncrement_def Let_def persistUsage_def saveJSON_def
      split: write_outcome.split limit.split)

lemma checkAndIncrement_counter:
  "usage_or_0 (usage (snd (checkAndIncrement s u env))) k =
     (if k = usage_key u (today_clock env)
         \<and> (case LIMITS (plan u) of Infinity \<Rightarrow> True | Finite l \<Rightarrow> usage_or_0 (usage s) k < l)
      then usage_or_0 (usage s) k + 1 else usage_or_0 (usage s) k)"
  by (auto simp add: checkAndIncrement_usage Let_def usage_or_0_update split: limit.splits)

lemma checkAndIncrement_denied_state:
  assumes "fst (checkAndIncrement s u env) = Inr d" and "\<not> allowed d"
  shows "snd (checkAndIncrement s u env) = s"
  using assms
  by (auto simp: checkAndIncrement_def Let_def persistUsage_def saveJSON_def
      split: write_outcome.splits limit.splits if_splits)

lemma ledger_step_counter_mono: "usage_or_0 (usage s) k \<le> usage_or_0 (usage (ledger_step s x)) k"
  by (cases x) (simp_all add: checkAndIncrement_counter)

lemma ledger_run_counter_mono: "usage_or_0 (usage s) k \<le> usage_or_0 (usage (ledger_run s ops)) k"
proof (induction ops arbitrary: s)
  case Nil
  then show ?case by simp
next
  case (Cons x xs)
  have "usage_or_0 (usage s) k \<le> usage_or_0 (usage (ledger_step s x)) k"
    by (rule ledger_step_counter_mono)
  also have "\<dots> \<le> usage_or_0 (usage (ledger_run (ledger_step s x) xs)) k"
    by (rule Cons.IH)
  finally show ?case by simp
qed

lemma ledger_step_free_bound:
  "free_op x \<Longrightarrow> usage_or_0 (usage (ledger_step s x)) k \<le> max 10 (usage_or_0 (usage s) k)"
  by (cases x) (auto simp: checkAndIncrement_counter LIMITS_def)

lemma ledger_run_free_bound:
  "\<forall>x \<in> set ops. free_op x \<Longrightarrow>
   usage_or_0 (usage (ledger_run s ops)) k \<le> max 10 (usage_or_0 (usage s) k)"
proof (induction ops arbitrary: s)
  case Nil
  then show ?case by simp
next
  case (Cons x xs)
  have "usage_or_0 (usage (ledger_run (ledger_step s x) xs)) k
      \<le> max 10 (usage_or_0 (usage (ledger_step s x)) k)"
    using Cons.prems by (intro Cons.IH) simp
  moreover have "usage_or_0 (usage (ledger_step s x)) k \<le> max 10 (usage_or_0 (usage s) k)"
    using Cons.prems by (intro ledger_step_free_bound) simp
  ultimately show ?case by simp
qed

text \<open>
  C7. For every key of the usage mapping: over any sequence of \<^verbatim>\<open>checkAndIncrement\<close> and
  \<^verbatim>\<open>getUsage\<close> calls the counter never decreases; when all the accounts served are on the
  free plan it ends at most at 10, or where it started if that was higher; a single
  \<^verbatim>\<open>checkAndIncrement\<close> changes a counter only by adding 1 to the caller's counter of the
  day, and never to a value above the plan's limit; and a denied call leaves the whole
  state as it was.
\<close>

theorem counter_monotone_and_bounded:
  "usage_or_0 (usage s) k \<le> usage_or_0 (usage (ledger_run s ops)) k
   \<and> ((\<forall>x \<in> set ops. free_op x) \<longrightarrow>
        usage_or_0 (usage (ledger_run s ops)) k \<le> max 10 (usage_or_0 (usage s) k))
   \<and> (usage_or_0 (usage (snd (checkAndIncrement s u env))) k \<noteq> usage_or_0 (usage s) k \<longrightarrow>
        k = usage_key u (today_clock env)
        \<and> usage_or_0 (usage (snd (checkAndIncrement s u env))) k = usage_or_0 (usage s) k + 1
        \<and> (case LIMITS (plan u) of
              Finite l \<Rightarrow> usage_or_0 (usage (snd (checkAndIncrement s u env))) k \<le> l
            | Infinity \<Rightarrow> True))
   \<and> ((\<exists>d. fst (checkAndIncrement s u env) = Inr d \<and> \<not> allowed d) \<longrightarrow>
        snd (checkAndIncrement s u env) = s)"
proof -
  have 1: "usage_or_0 (usage s) k \<le> usage_or_0 (usage (ledger_run s ops)) k"
    by (rule ledger_run_counter_mono)
  have 2: "(\<forall>x \<in> set ops. free_op x) \<longrightarrow>
        usage_or_0 (usage (ledger_run s ops)) k \<le> max 10 (usage_or_0 (usage s) k)"
    using ledger_run_free_bound by blast
  have 3: "usage_or_0 (usage (snd (checkAndIncrement s u env))) k \<noteq> usage_or_0 (usage s) k \<longrightarrow>
        k = usage_key u (today_clock env)
        \<and> usage_or_0 (usage (snd (checkAndIncrement s u env))) k = usage_or_0 (usage s) k + 1
        \<and> (case LIMITS (plan u) of
              Finite l \<Rightarrow> usage_or_0 (usage (snd (checkAndIncrement s u env))) k \<le> l
            | Infinity \<Rightarrow> True)"
    by (auto simp: checkAndIncrement_counter split: limit.splits if_splits)
  have 4: "(\<exists>d. fst (checkAndIncrement s u env) = Inr d \<and> \<not> allowed d) \<longrightarrow>
        snd (checkAndIncrement s u env) = s"
    using checkAndIncrement_denied_state by blast
  from 1 2 3 4 show ?thesis by blast
qed

theorem counter_monotone_and_bounded_witness:
  "usage_or_0 (usage empty_state) (usage_key alice new_years_eve)
     \<le> usage_or_0 (usage (ledger_run empty_state
          [Consume alice call_ok, Peek alice new_years_eve new_years_eve, Consume alice call_ok]))
          (usage_key alice new_years_eve)
   \<and> usage_or_0 (usage (ledger_run empty_state
          [Consume alice call_ok, Peek alice new_years_eve new_years_eve, Consume alice call_ok]))
          (usage_key alice new_years_eve) \<le> 10
   \<and> usage_or_0 (usage (snd (checkAndIncrement empty_state alice call_ok)))
        (usage_key alice new_years_eve) = 1
   \<and> usage_or_0 (usage (snd (checkAndIncrement empty_state alice call_ok)))
        (usage_key alice new_years_eve) \<le> 10"
proof -
  define ops where "ops = [Consume alice call_ok, Peek alice new_years_eve new_years_eve,
    Consume alice call_ok]"
  define k where "k = usage_key alice new_years_eve"
  note t = counter_monotone_and_bounded [where s = empty_state and k = k and ops = ops
      and u = alice and env = call_ok]
  have f: "\<forall>x \<in> set ops. free_op x" by (simp add: ops_def alice_def)
  have z: "usage_or_0 (usage empty_state) k = 0" by (rule call_ok_count0)
  have l: "LIMITS (plan alice) = Finite 10" by (simp add: alice_def LIMITS_def)
  have c: "usage_or_0 (usage (snd (checkAndIncrement empty_state alice call_ok))) k = 1"
    by (simp add: checkAndIncrement_counter l call_ok_count0 k_def call_ok_def)
  have 1: "usage_or_0 (usage empty_state) k \<le> usage_or_0 (usage (ledger_run empty_state ops)) k"
    using t by blast
  have 2: "usage_or_0 (usage (ledger_run empty_state ops)) k \<le> 10"
    using t f z by simp
  have 3: "usage_or_0 (usage (snd (checkAndIncrement empty_state alice call_ok))) k \<le> 10"
    using t c z l by simp
  show ?thesis using 1 2 3 c unfolding ops_def k_def by blast
qed

subsection \<open>The reset time\<close>

text \<open>
  C8. For a clock reading \<open>now\<close> from the epoch on (and before the last day a
  \<^verbatim>\<open>Date\<close> can hold), the reset time that \<^verbatim>\<open>checkAndIncrement\<close> and \<^verbatim>\<open>getUsage\<close> report is
  the next UTC midnight in epoch seconds: the start of the next day, a multiple of
  86400 seconds that lies after \<open>now\<close> and at most one day after it. No case is made of
  the end of a month or a year: \<^verbatim>\<open>Date.UTC\<close> carries the day after the last into the next
  month. The witness is the last millisecond of 2024.
\<close>

theorem reset_is_next_utc_midnight:
  assumes "0 \<le> now" and "now < 8640000000000000" and "reset_clock env = now"
  shows "endOfDayUnix now = Some (next_utc_midnight now)
     \<and> (case fst (checkAndIncrement s u env) of
           Inr d \<Rightarrow> resetAt d = Some (next_utc_midnight now)
              \<and> X_RateLimit_Reset (headers d) = String_int (next_utc_midnight now)
         | Inl e \<Rightarrow> usage_write env \<noteq> Written)
     \<and> resets_at (getUsage s u today_now now) = Some (next_utc_midnight now)
     \<and> next_utc_midnight now mod 86400 = 0
     \<and> now < 1000 * next_utc_midnight now
     \<and> 1000 * next_utc_midnight now \<le> now + 86400000"
proof -
  note e = endOfDayUnix_value [OF assms(1,2)]
  have c: "case fst (checkAndIncrement s u env) of
           Inr d \<Rightarrow> resetAt d = Some (next_utc_midnight now)
              \<and> X_RateLimit_Reset (headers d) = String_int (next_utc_midnight now)
         | Inl e \<Rightarrow> usage_write env \<noteq> Written"
    by (simp add: checkAndIncrement_def Let_def assms(3) e String_num_def persistUsage_def
        saveJSON_def split: write_outcome.split)
  have g: "resets_at (getUsage s u today_now now) = Some (next_utc_midnight now)"
    by (simp add: getUsage_def Let_def e)
  from e c g next_utc_midnight_is_midnight [of now] show ?thesis by blast
qed

theorem reset_is_next_utc_midnight_witness:
  "(0::int) \<le> new_years_eve \<and> new_years_eve < 8640000000000000
   \<and> reset_clock call_ok = new_years_eve
   \<and> endOfDayUnix new_years_eve = Some 1735689600
   \<and> (case fst (checkAndIncrement empty_state alice call_ok) of
         Inr d \<Rightarrow> resetAt d = Some 1735689600
       | Inl e \<Rightarrow> False)
   \<and> resets_at (getUsage empty_state alice new_years_eve new_years_eve) = Some 1735689600"
proof -
  have a: "0 \<le> new_years_eve" "new_years_eve < 8640000000000000"
    by (simp_all add: new_years_eve_def)
  have c: "reset_clock call_ok = new_years_eve" "usage_write call_ok = Written"
    by (simp_all add: call_ok_def)
  have n: "next_utc_midnight new_years_eve = 1735689600"
    by (simp add: next_utc_midnight_def new_years_eve_def)
  show ?thesis
    using a c(1) reset_is_next_utc_midnight [OF a c(1), where s = empty_state and u = alice
        and today_now = new_years_eve]
    by (simp add: n c split: sum.splits)
qed

subsection \<open>Registration\<close>

lemma js_get_own: "k \<notin> set object_prototype_keys \<Longrightarrow> js_get obj k = map_option Own (obj k)"
  by (simp add: js_get_def split: option.split)

lemma js_set_email: "CHR ''@'' \<in> set addr \<Longrightarrow> js_set obj addr v = obj(addr \<mapsto> v)"
  by (auto simp: js_set_def)

lemma createUser_unfold:
  "createUser s addr env =
     (let newKey = generateApiKey (random_bytes env);
          newUser = \<lparr>userId = uuid env, email = addr, plan = Free,
                     createdAt = toISOString (created_clock env)\<rparr>;
          us = \<lparr>byKey = (byKey (users s))(newKey \<mapsto> newUser),
                byEmail = js_set (byEmail (users s)) addr newKey\<rparr>
      in case users_write env of
           Written \<Rightarrow> (Inr \<lparr>apiKey = Own newKey, user = Own newUser\<rparr>,
                        s\<lparr>users := us, users_file := Some us\<rparr>)
         | Throws left \<Rightarrow> (Inl WriteFailed, s\<lparr>users := us, users_file := left\<rparr>))"
  by (simp add: createUser_def persistUsers_def saveJSON_def Let_def split: write_outcome.split)

lemma registerUser_existing:
  assumes "js_get (byEmail (users s)) addr = Some existing" and "truthy existing"
    and "js_get (byKey (users s)) (property_key existing) = Some found"
  shows "registerUser s addr env = (Inr \<lparr>apiKey = existing, user = found\<rparr>, s)"
  using assms by (simp add: registerUser_def)

lemma registerUser_cases:
  "(\<exists>existing found. js_get (byEmail (users s)) addr = Some existing \<and> truthy existing
       \<and> js_get (byKey (users s)) (property_key existing) = Some found
       \<and> registerUser s addr env = (Inr \<lparr>apiKey = existing, user = found\<rparr>, s))
   \<or> registerUser s addr env = createUser s addr env"
  by (auto simp: registerUser_def split: option.splits)

lemma createUser_then_lookup:
  assumes "createUser s addr env = (Inr r, s1)" and "CHR ''@'' \<in> set addr"
  shows "js_get (byEmail (users s1)) addr = Some (apiKey r)" and "truthy (apiKey r)"
    and "js_get (byKey (users s1)) (property_key (apiKey r)) = Some (user r)"
    and "apiKey r = Own (generateApiKey (random_bytes env))"
proof -
  define newKey where "newKey = generateApiKey (random_bytes env)"
  define newUser where "newUser = \<lparr>userId = uuid env, email = addr, plan = Free,
                     createdAt = toISOString (created_clock env)\<rparr>"
  from assms(1) have r: "r = \<lparr>apiKey = Own newKey, user = Own newUser\<rparr>"
    and s1: "users s1 = \<lparr>byKey = (byKey (users s))(newKey \<mapsto> newUser),
                byEmail = js_set (byEmail (users s)) addr newKey\<rparr>"
    by (auto simp: createUser_unfold Let_def newKey_def newUser_def split: write_outcome.splits)
  show "js_get (byEmail (users s1)) addr = Some (apiKey r)"
    by (simp add: s1 r js_set_email [OF assms(2)] js_get_def)
  show "truthy (apiKey r)"
    by (simp add: r truthy_def newKey_def generateApiKey_not_empty)
  show "js_get (byKey (users s1)) (property_key (apiKey r)) = Some (user r)"
    by (simp add: s1 r property_key_def js_get_def)
  show "apiKey r = Own (generateApiKey (random_bytes env))"
    by (simp add: r newKey_def)
qed

lemma registerUser_then_lookup:
  assumes "registerUser s addr env = (Inr r, s1)" and "CHR ''@'' \<in> set addr"
  shows "js_get (byEmail (users s1)) addr = Some (apiKey r) \<and> truthy (apiKey r)
     \<and> js_get (byKey (users s1)) (property_key (apiKey r)) = Some (user r)"
  using registerUser_cases [of s addr env] assms createUser_then_lookup [of s addr env r s1]
  by auto

lemma registerUser_again:
  assumes "registerUser s addr e1 = (Inr r, s1)" and "CHR ''@'' \<in> set addr"
  shows "registerUser s1 addr e2 = (Inr r, s1)"
proof -
  from registerUser_then_lookup [OF assms]
  have "registerUser s1 addr e2 = (Inr \<lparr>apiKey = apiKey r, user = user r\<rparr>, s1)"
    by (intro registerUser_existing) simp_all
  then show ?thesis by simp
qed

lemma post_register_rejects:
  "CHR ''@'' \<notin> set addr \<Longrightarrow> post_register s (Some addr) env = (Refuse INVALID_REQUEST, s)"
  by (simp add: post_register_def)

lemma registerUser_alice:
  "registerUser empty_state ''alice@example.com'' register_ok =
     (Inr \<lparr>apiKey = Own (generateApiKey (replicate 32 0)),
           user = Own \<lparr>userId = ''7c9e6679-7425-40de-944b-e07fc1f90ae7'',
                       email = ''alice@example.com'', plan = Free,
                       createdAt = toISOString new_years_eve\<rparr>\<rparr>,
      empty_state\<lparr>users := \<lparr>byKey = Map.empty(generateApiKey (replicate 32 0) \<mapsto>
                                 \<lparr>userId = ''7c9e6679-7425-40de-944b-e07fc1f90ae7'',
                                  email = ''alice@example.com'', plan = Free,
                                  createdAt = toISOString new_years_eve\<rparr>),
                               byEmail = Map.empty(''alice@example.com'' \<mapsto>
                                 generateApiKey (replicate 32 0))\<rparr>,
                    users_file := Some \<lparr>byKey = Map.empty(generateApiKey (replicate 32 0) \<mapsto>
                                 \<lparr>userId = ''7c9e6679-7425-40de-944b-e07fc1f90ae7'',
                                  email = ''alice@example.com'', plan = Free,
                                  createdAt = toISOString new_years_eve\<rparr>),
                               byEmail = Map.empty(''alice@example.com'' \<mapsto>
                                 generateApiKey (replicate 32 0))\<rparr>\<rparr>)"
proof -
  have u: "users empty_state = \<lparr>byKey = Map.empty, byEmail = Map.empty\<rparr>"
    by (simp add: empty_state_def initial_state_def loadJSON_def)
  have g: "js_get (byEmail (users empty_state)) ''alice@example.com'' = None"
    by (simp add: u js_get_def object_prototype_keys_def)
  have "registerUser empty_state ''alice@example.com'' register_ok
      = createUser empty_state ''alice@example.com'' register_ok"
    by (simp add: registerUser_def g)
  then show ?thesis
    by (simp add: createUser_unfold Let_def register_ok_def u js_set_email)
qed

lemma registerUser_alice_failing:
  "registerUser empty_state ''alice@example.com'' register_failing =
     (Inl WriteFailed,
      empty_state\<lparr>users := \<lparr>byKey = Map.empty(generateApiKey (replicate 32 0) \<mapsto>
                                 \<lparr>userId = ''7c9e6679-7425-40de-944b-e07fc1f90ae7'',
                                  email = ''alice@example.com'', plan = Free,
                                  createdAt = toISOString new_years_eve\<rparr>),
                               byEmail = Map.empty(''alice@example.com'' \<mapsto>
                                 generateApiKey (replicate 32 0))\<rparr>,
                    users_file := None\<rparr>)"
proof -
  have u: "users empty_state = \<lparr>byKey = Map.empty, byEmail = Map.empty\<rparr>"
    by (simp add: empty_state_def initial_state_def loadJSON_def)
  have g: "js_get (byEmail (users empty_state)) ''alice@example.com'' = None"
    by (simp add: u js_get_def object_prototype_keys_def)
  have "registerUser empty_state ''alice@example.com'' register_failing
      = createUser empty_state ''alice@example.com'' register_failing"
    by (simp add: registerUser_def g)
  then show ?thesis
    by (simp add: createUser_unfold Let_def register_failing_def register_ok_def u js_set_email)
qed

lemma users_empty_state: "users empty_state = \<lparr>byKey = Map.empty, byEmail = Map.empty\<rparr>"
  by (simp add: empty_state_def initial_state_def loadJSON_def)

text \<open>
  C2. Registration is idempotent on the email. When \<^verbatim>\<open>POST /api/auth/register\<close> has
  answered for an email, a second request with the same email gets the same answer,
  \<^verbatim>\<open>registerUser\<close> returns the same credential and the same account as the first time,
  and the state after the second call is the state after the first: no mapping changes
  and nothing is written. (A string without an at sign is refused by the route at both
  calls, \<open>post_register_rejects\<close>.)
\<close>

theorem register_idempotent:
  assumes "post_register s (Some addr) e1 = (Answer body, s1)"
  shows "post_register s1 (Some addr) e2 = (Answer body, s1)
     \<and> (\<exists>r. registerUser s addr e1 = (Inr r, s1) \<and> registerUser s1 addr e2 = (Inr r, s1))"
proof -
  from assms have at: "CHR ''@'' \<in> set addr" and ne: "addr \<noteq> []"
    by (auto simp: post_register_def split: if_splits)
  from assms at ne obtain r where first: "registerUser s addr e1 = (Inr r, s1)"
    and body: "body = \<lparr>api_key = apiKey r,
        body_plan = (case user r of Own a \<Rightarrow> Some (plan a) | Inherited n \<Rightarrow> None)\<rparr>"
    by (auto simp: post_register_def split: prod.splits sum.splits)
  have second: "registerUser s1 addr e2 = (Inr r, s1)"
    using first at by (rule registerUser_again)
  have "post_register s1 (Some addr) e2 = (Answer body, s1)"
    using at ne by (simp add: post_register_def second body)
  with first second show ?thesis by blast
qed

theorem register_idempotent_witness:
  "post_register empty_state (Some ''alice@example.com'') register_ok =
     (Answer \<lparr>api_key = Own (generateApiKey (replicate 32 0)), body_plan = Some Free\<rparr>,
      snd (registerUser empty_state ''alice@example.com'' register_ok))
   \<and> post_register (snd (registerUser empty_state ''alice@example.com'' register_ok))
        (Some ''alice@example.com'') register_failing =
     (Answer \<lparr>api_key = Own (generateApiKey (replicate 32 0)), body_plan = Some Free\<rparr>,
      snd (registerUser empty_state ''alice@example.com'' register_ok))"
proof -
  have first: "post_register empty_state (Some ''alice@example.com'') register_ok =
     (Answer \<lparr>api_key = Own (generateApiKey (replicate 32 0)), body_plan = Some Free\<rparr>,
      snd (registerUser empty_state ''alice@example.com'' register_ok))"
    by (simp add: post_register_def registerUser_alice)
  from first register_idempotent [OF first, of register_failing]
  show ?thesis by blast
qed

text \<open>
  Why the route's check for an at sign matters: called on \<^verbatim>\<open>__proto__\<close>,
  \<^verbatim>\<open>registerUser\<close> finds the prototype object under that name, makes a new account and
  stores nothing in \<^verbatim>\<open>byEmail\<close>, so that the next call does the same again.
\<close>

lemma registerUser_proto_creates:
  assumes "byEmail (users s) ''__proto__'' = None"
    and "byKey (users s) ''[object Object]'' = None"
  shows "registerUser s ''__proto__'' env = createUser s ''__proto__'' env"
    and "byEmail (users (snd (registerUser s ''__proto__'' env))) = byEmail (users s)"
    and "byKey (users (snd (registerUser s ''__proto__'' env))) ''[object Object]'' = None"
proof -
  have g: "js_get (byEmail (users s)) ''__proto__'' = Some (Inherited ''__proto__'')"
    using assms(1) by (simp add: js_get_def object_prototype_keys_def)
  have k: "js_get (byKey (users s)) (property_key (Inherited ''__proto__'')) = None"
    using assms(2) by (simp add: js_get_def property_key_def object_prototype_keys_def)
  show c: "registerUser s ''__proto__'' env = createUser s ''__proto__'' env"
    by (simp add: registerUser_def g k truthy_def)
  show "byEmail (users (snd (registerUser s ''__proto__'' env))) = byEmail (users s)"
    using assms(1)
    by (simp add: c createUser_unfold Let_def js_set_def split: write_outcome.split)
  show "byKey (users (snd (registerUser s ''__proto__'' env))) ''[object Object]'' = None"
    using assms(2)
    by (simp add: c createUser_unfold Let_def generateApiKey_def split: write_outcome.split)
qed

text \<open>
  C6, as the claim states it, fails: when the write of the users file throws,
  \<^verbatim>\<open>registerUser\<close> fails, and both mappings hold the entries of the new account although
  nothing was persisted.
\<close>

theorem register_failure_leaves_entries:
  "fst (registerUser empty_state ''alice@example.com'' register_failing) = Inl WriteFailed
   \<and> byEmail (users empty_state) ''alice@example.com'' = None
   \<and> byKey (users empty_state) (generateApiKey (replicate 32 0)) = None
   \<and> byEmail (users (snd (registerUser empty_state ''alice@example.com'' register_failing)))
        ''alice@example.com'' = Some (generateApiKey (replicate 32 0))
   \<and> byKey (users (snd (registerUser empty_state ''alice@example.com'' register_failing)))
        (generateApiKey (replicate 32 0))
      = Some \<lparr>userId = ''7c9e6679-7425-40de-944b-e07fc1f90ae7'', email = ''alice@example.com'',
              plan = Free, createdAt = toISOString new_years_eve\<rparr>
   \<and> users_file (snd (registerUser empty_state ''alice@example.com'' register_failing)) = None"
  by (simp add: registerUser_alice_failing users_empty_state)

text \<open>
  C6, amended. When \<^verbatim>\<open>registerUser\<close> fails for an email address, the write of the users
  file has thrown, and the registry in memory is not rolled back: both mappings were
  updated together, the credential to the new account and the email to the credential
  (never one without the other), and the file holds what the failed write left.
\<close>

theorem register_failure_not_rolled_back:
  assumes "registerUser s addr env = (Inl e, s1)" and "CHR ''@'' \<in> set addr"
  shows "\<exists>left. users_write env = Throws left
     \<and> s1 = s\<lparr>users := \<lparr>byKey = (byKey (users s))(generateApiKey (random_bytes env) \<mapsto>
                             \<lparr>userId = uuid env, email = addr, plan = Free,
                              createdAt = toISOString (created_clock env)\<rparr>),
                           byEmail = (byEmail (users s))(addr \<mapsto>
                              generateApiKey (random_bytes env))\<rparr>,
                users_file := left\<rparr>"
proof -
  from registerUser_cases [of s addr env] assms(1)
  have "createUser s addr env = (Inl e, s1)" by auto
  then show ?thesis
    by (auto simp: createUser_unfold Let_def js_set_email [OF assms(2)]
        split: write_outcome.splits)
qed

theorem register_failure_not_rolled_back_witness:
  "registerUser empty_state ''alice@example.com'' register_failing =
     (Inl WriteFailed,
      empty_state\<lparr>users := \<lparr>byKey = (byKey (users empty_state))(generateApiKey (replicate 32 0) \<mapsto>
                             \<lparr>userId = ''7c9e6679-7425-40de-944b-e07fc1f90ae7'',
                              email = ''alice@example.com'', plan = Free,
                              createdAt = toISOString new_years_eve\<rparr>),
                           byEmail = (byEmail (users empty_state))(''alice@example.com'' \<mapsto>
                              generateApiKey (replicate 32 0))\<rparr>,
                users_file := None\<rparr>)"
proof -
  obtain s1 where r: "registerUser empty_state ''alice@example.com'' register_failing
      = (Inl WriteFailed, s1)"
    using registerUser_alice_failing by blast
  have at: "CHR ''@'' \<in> set ''alice@example.com''" by simp
  from register_failure_not_rolled_back [OF r at]
  show ?thesis
    unfolding r by (simp add: register_failing_def register_ok_def)
qed

subsection \<open>Resolving a presented key\<close>

lemma validateApiKey_inherited:
  assumes "k \<in> set object_prototype_keys" and "byKey us k = None"
  shows "validateApiKey us k = Some (Inherited k)"
proof -
  have "CHR ''@'' \<notin> set k" using assms(1) at_sign_not_inherited by blast
  then show ?thesis using assms by (simp add: validateApiKey_def js_get_def)
qed

lemma validateApiKey_miss:
  assumes "k \<notin> set object_prototype_keys" and "byKey us k = None" and "byEmail us k = None"
  shows "validateApiKey us k = None"
  using assms by (simp add: validateApiKey_def js_get_def)

lemma resolve_registered:
  assumes "registerUser s addr env = (Inr r, s1)" and "CHR ''@'' \<in> set addr"
    and "CHR ''@'' \<notin> set (property_key (apiKey r))"
  shows "validateApiKey (users s1) (property_key (apiKey r)) = Some (user r)"
    and "validateApiKey (users s1) addr = Some (user r)"
  using registerUser_then_lookup [OF assms(1,2)] assms(2,3)
  by (simp_all add: validateApiKey_def)

lemma resolve_new_account:
  assumes "createUser s addr env = (Inr r, s1)" and "CHR ''@'' \<in> set addr"
  shows "validateApiKey (users s1) (generateApiKey (random_bytes env)) = Some (user r)"
    and "validateApiKey (users s1) addr = Some (user r)"
  using createUser_then_lookup [OF assms] assms(2) generateApiKey_no_at [of "random_bytes env"]
  by (simp_all add: validateApiKey_def property_key_def)

text \<open>
  C3. The claim: the credential and the email of a registered account resolve to the
  account (\<open>resolve_registered\<close>, \<open>resolve_new_account\<close>), and every other string
  resolves to \<^verbatim>\<open>null\<close>. The second part fails for the names of the members of
  \<^verbatim>\<open>Object.prototype\<close>: after one registration, \<^verbatim>\<open>constructor\<close> is neither a credential nor
  an email of the registry, and \<^verbatim>\<open>validateApiKey\<close> returns the inherited function, which
  \<^verbatim>\<open>authMiddleware\<close> takes for a user.
\<close>

theorem inherited_member_resolves:
  "byKey (users (snd (registerUser empty_state ''alice@example.com'' register_ok)))
      ''constructor'' = None
   \<and> byEmail (users (snd (registerUser empty_state ''alice@example.com'' register_ok)))
      ''constructor'' = None
   \<and> validateApiKey (users (snd (registerUser empty_state ''alice@example.com'' register_ok)))
      ''constructor'' = Some (Inherited ''constructor'')
   \<and> authMiddleware (snd (registerUser empty_state ''alice@example.com'' register_ok))
      (Some ''constructor'') = Answer (Inherited ''constructor'')"
proof -
  define s1 where "s1 = snd (registerUser empty_state ''alice@example.com'' register_ok)"
  have k: "byKey (users s1) ''constructor'' = None"
    by (simp add: s1_def registerUser_alice generateApiKey_def)
  have e: "byEmail (users s1) ''constructor'' = None"
    by (simp add: s1_def registerUser_alice)
  have m: "''constructor'' \<in> set object_prototype_keys"
    by (simp add: object_prototype_keys_def)
  have v: "validateApiKey (users s1) ''constructor'' = Some (Inherited ''constructor'')"
    using m k by (rule validateApiKey_inherited)
  have "authMiddleware s1 (Some ''constructor'') = Answer (Inherited ''constructor'')"
    by (simp add: authMiddleware_def v)
  with k e v show ?thesis unfolding s1_def by blast
qed

end
